theory Spec2Isabelle
  imports Main
begin

section \<open>The process manager: data model\<close>

text \<open>
  The manager of \<^verbatim>\<open>manager.c\<close> keeps its process control blocks in singly linked
  lists that are threaded through the blocks themselves (field \<^verbatim>\<open>next\<close>), so one block
  can be reached from several queues at once. The embedding therefore keeps an explicit
  store of blocks, indexed by address, and every queue is a pair of addresses.
  \<^verbatim>\<open>NULL\<close> is \<open>None\<close>.
\<close>

type_synonym addr = nat

datatype state_t = NEW | READY | RUNNING | WAITING | TERMINATED

datatype instr_types_t = REQ_OP | REL_OP | SEND_OP | RECV_OP

datatype available_t = NO | YES

text \<open>
  The instructions of a process are an immutable, \<^verbatim>\<open>NULL\<close>-terminated linked list;
  the cursor \<^verbatim>\<open>next_instruction\<close> of a block is the remaining suffix of that list.
\<close>

record instr_t =
  instr_type :: instr_types_t
  resource_name :: string
  msg :: "string option"

record resource_t =
  name :: string
  available :: available_t

record pcb_t =
  proc_name :: string
  state :: state_t
  next_instruction :: "instr_t list"
  priority :: int
  resources :: "resource_t list"
  pcb_next :: "addr option"

record pcb_queue_t =
  first :: "addr option"
  last_q :: "addr option"

text \<open>The lines written by \<^verbatim>\<open>logger.c\<close> and by the \<^verbatim>\<open>printf\<close> calls of the manager.\<close>

datatype event =
    Log_request_acquired string string
  | Log_request_waiting string string
  | Log_request_ready string
  | Log_release_released string string
  | Log_release_error string string
  | Log_terminated string
  | Log_deadlock_detected
  | Print_new_arrival string
  | Print_no_instruction

text \<open>
  The state of the manager: the store of blocks, the three static queues, the resource
  list handed out by \<^verbatim>\<open>get_available_resources()\<close>, and the output so far.
  Two fields stand for the environment: \<open>new_pcbs\<close> lists the results of the coming
  calls of \<^verbatim>\<open>get_new_pcb()\<close>, and \<open>malloc_fails\<close> tells whether \<^verbatim>\<open>malloc\<close>
  returns \<^verbatim>\<open>NULL\<close>.
\<close>

record manager =
  pcbs :: "addr \<Rightarrow> pcb_t"
  readyq :: pcb_queue_t
  waitingq :: pcb_queue_t
  terminatedq :: pcb_queue_t
  available_resources :: "resource_t list"
  new_pcbs :: "addr option list"
  malloc_fails :: bool
  logfile :: "event list"

datatype queue_ref = Readyq | Waitingq | Terminatedq

text \<open>
  A call either returns, stops the program (a dereferenced \<^verbatim>\<open>NULL\<close>, or
  \<^verbatim>\<open>exit(EXIT_FAILURE)\<close>), or never returns. Loops over linked blocks carry fuel, one
  unit for each test of the loop condition; \<open>Out_of_fuel\<close> for every amount of fuel is a
  loop that runs forever.
\<close>

datatype fault = Null_dereference | Exit_failure

datatype 'a outcome = Out_of_fuel | Fault fault | Returns 'a

definition obind :: "'a outcome \<Rightarrow> ('a \<Rightarrow> 'b outcome) \<Rightarrow> 'b outcome" where
  "obind m f = (case m of Out_of_fuel \<Rightarrow> Out_of_fuel | Fault e \<Rightarrow> Fault e | Returns x \<Rightarrow> f x)"

definition INT_MIN :: int where
  "INT_MIN = - 2147483648"

definition PRIOR :: int where "PRIOR = 0"
definition RR :: int where "RR = 1"
definition FCFS :: int where "FCFS = 2"

subsection \<open>Field access\<close>

definition get_queue :: "queue_ref \<Rightarrow> manager \<Rightarrow> pcb_queue_t" where
  "get_queue q s = (case q of Readyq \<Rightarrow> readyq s | Waitingq \<Rightarrow> waitingq s
     | Terminatedq \<Rightarrow> terminatedq s)"

definition set_queue :: "queue_ref \<Rightarrow> pcb_queue_t \<Rightarrow> manager \<Rightarrow> manager" where
  "set_queue q v s = (case q of Readyq \<Rightarrow> s\<lparr>readyq := v\<rparr> | Waitingq \<Rightarrow> s\<lparr>waitingq := v\<rparr>
     | Terminatedq \<Rightarrow> s\<lparr>terminatedq := v\<rparr>)"

definition set_next :: "addr \<Rightarrow> addr option \<Rightarrow> manager \<Rightarrow> manager" where
  "set_next p v s = s\<lparr>pcbs := (pcbs s)(p := (pcbs s p)\<lparr>pcb_next := v\<rparr>)\<rparr>"

definition set_state :: "addr \<Rightarrow> state_t \<Rightarrow> manager \<Rightarrow> manager" where
  "set_state p v s = s\<lparr>pcbs := (pcbs s)(p := (pcbs s p)\<lparr>state := v\<rparr>)\<rparr>"

definition set_next_instruction :: "addr \<Rightarrow> instr_t list \<Rightarrow> manager \<Rightarrow> manager" where
  "set_next_instruction p v s =
     s\<lparr>pcbs := (pcbs s)(p := (pcbs s p)\<lparr>next_instruction := v\<rparr>)\<rparr>"

definition set_resources :: "addr \<Rightarrow> resource_t list \<Rightarrow> manager \<Rightarrow> manager" where
  "set_resources p v s = s\<lparr>pcbs := (pcbs s)(p := (pcbs s p)\<lparr>resources := v\<rparr>)\<rparr>"

definition emit :: "event \<Rightarrow> manager \<Rightarrow> manager" where
  "emit e s = s\<lparr>logfile := logfile s @ [e]\<rparr>"

section \<open>The queues\<close>

text \<open>\<^verbatim>\<open>enqueue_pcb\<close>: the store \<^verbatim>\<open>queue->last->next = pcb\<close> dereferences \<^verbatim>\<open>queue->last\<close>.\<close>

definition enqueue_pcb :: "addr option \<Rightarrow> queue_ref option \<Rightarrow> manager \<Rightarrow> manager outcome" where
  "enqueue_pcb pcb queue s =
     (case pcb of None \<Rightarrow> Returns s
      | Some p \<Rightarrow>
        (case queue of None \<Rightarrow> Returns s
         | Some q \<Rightarrow>
           (let s1 = set_next p None s in
            if first (get_queue q s1) = None
            then Returns (set_queue q \<lparr>first = Some p, last_q = Some p\<rparr> s1)
            else (case last_q (get_queue q s1) of
                    None \<Rightarrow> Fault Null_dereference
                  | Some l \<Rightarrow>
                      Returns (set_queue q ((get_queue q s1)\<lparr>last_q := Some p\<rparr>)
                                 (set_next l (Some p) s1))))))"

definition dequeue_pcb :: "queue_ref option \<Rightarrow> manager \<Rightarrow> addr option \<times> manager" where
  "dequeue_pcb queue s =
     (case queue of None \<Rightarrow> (None, s)
      | Some q \<Rightarrow>
        (case first (get_queue q s) of None \<Rightarrow> (None, s)
         | Some proc \<Rightarrow>
           (let s1 = set_queue q ((get_queue q s)\<lparr>first := pcb_next (pcbs s proc)\<rparr>) s;
                s2 = (if first (get_queue q s1) = None
                      then set_queue q ((get_queue q s1)\<lparr>last_q := None\<rparr>) s1 else s1)
            in (Some proc, set_next proc None s2))))"

definition higher_priority :: "int \<Rightarrow> int \<Rightarrow> bool" where
  "higher_priority pri1 pri2 = (if pri1 > pri2 then True else False)"

definition move_proc_to_rq :: "addr option \<Rightarrow> manager \<Rightarrow> manager outcome" where
  "move_proc_to_rq pcb s =
     (case pcb of None \<Rightarrow> Returns s
      | Some p \<Rightarrow>
          obind (enqueue_pcb (Some p) (Some Readyq) (set_state p READY s))
            (\<lambda>s1. Returns (emit (Log_request_ready (proc_name (pcbs s1 p))) s1)))"

definition move_proc_to_wq :: "addr option \<Rightarrow> string \<Rightarrow> manager \<Rightarrow> manager outcome" where
  "move_proc_to_wq pcb r s =
     (case pcb of None \<Rightarrow> Returns s
      | Some p \<Rightarrow>
          obind (enqueue_pcb (Some p) (Some Waitingq) (set_state p WAITING s))
            (\<lambda>s1. Returns (emit (Log_request_waiting (proc_name (pcbs s1 p)) r) s1)))"

definition move_proc_to_tq :: "addr option \<Rightarrow> manager \<Rightarrow> manager outcome" where
  "move_proc_to_tq pcb s =
     (case pcb of None \<Rightarrow> Returns s
      | Some p \<Rightarrow>
          obind (enqueue_pcb (Some p) (Some Terminatedq) (set_state p TERMINATED s))
            (\<lambda>s1. Returns (emit (Log_terminated (proc_name (pcbs s1 p))) s1)))"

text \<open>
  \<^verbatim>\<open>init_queues\<close> walks the loaded list to its last block. \<^verbatim>\<open>main\<close> calls it with a
  list that is not \<^verbatim>\<open>NULL\<close>.
\<close>

fun init_queues_loop :: "nat \<Rightarrow> addr \<Rightarrow> manager \<Rightarrow> addr outcome" where
  "init_queues_loop 0 cur_pcb s = Out_of_fuel"
| "init_queues_loop (Suc n) cur_pcb s =
     (case pcb_next (pcbs s cur_pcb) of None \<Rightarrow> Returns cur_pcb
      | Some c \<Rightarrow> init_queues_loop n c s)"

definition init_queues :: "nat \<Rightarrow> addr option \<Rightarrow> manager \<Rightarrow> manager outcome" where
  "init_queues n cur_pcb s =
     (case cur_pcb of None \<Rightarrow> Fault Null_dereference
      | Some c \<Rightarrow>
          obind (init_queues_loop n c s)
            (\<lambda>l. Returns (s\<lparr>readyq := \<lparr>first = Some c, last_q = Some l\<rparr>,
                            waitingq := \<lparr>first = None, last_q = None\<rparr>,
                            terminatedq := \<lparr>first = None, last_q = None\<rparr>\<rparr>)))"

section \<open>The resource manager\<close>

text \<open>
  The loop of \<^verbatim>\<open>request_resource\<close> over the resource list: the first record that has
  the name and is available is set to \<^verbatim>\<open>NO\<close> and copied (the copy is made after the
  mark, so the handle carries \<^verbatim>\<open>NO\<close>); a record that has the name but is taken is
  passed over. The result is the copy and the new resource list.
\<close>

fun request_resource_loop :: "string \<Rightarrow> resource_t list \<Rightarrow> (resource_t \<times> resource_t list) option" where
  "request_resource_loop r [] = None"
| "request_resource_loop r (x # xs) =
     (if name x = r \<and> available x = YES
      then Some (x\<lparr>available := NO\<rparr>, x\<lparr>available := NO\<rparr> # xs)
      else (case request_resource_loop r xs of None \<Rightarrow> None
            | Some (new_resource, ys) \<Rightarrow> Some (new_resource, x # ys)))"

definition request_resource :: "addr \<Rightarrow> instr_t \<Rightarrow> manager \<Rightarrow> manager outcome" where
  "request_resource cur_pcb instr s =
     (case request_resource_loop (resource_name instr) (available_resources s) of
        Some (new_resource, ledger) \<Rightarrow>
          if malloc_fails s then Fault Exit_failure
          else Returns
            (emit (Log_request_acquired (proc_name (pcbs s cur_pcb)) (resource_name instr))
               (set_resources cur_pcb (new_resource # resources (pcbs s cur_pcb))
                  (s\<lparr>available_resources := ledger\<rparr>)))
      | None \<Rightarrow> move_proc_to_wq (Some cur_pcb) (resource_name instr) s)"

fun mark_resource_as_available_loop :: "string \<Rightarrow> resource_t list \<Rightarrow> resource_t list" where
  "mark_resource_as_available_loop r [] = []"
| "mark_resource_as_available_loop r (x # xs) =
     (if name x = r then x\<lparr>available := YES\<rparr> # xs
      else x # mark_resource_as_available_loop r xs)"

definition mark_resource_as_available :: "string \<Rightarrow> manager \<Rightarrow> manager" where
  "mark_resource_as_available r s =
     s\<lparr>available_resources := mark_resource_as_available_loop r (available_resources s)\<rparr>"

fun is_resource_available_loop :: "string \<Rightarrow> resource_t list \<Rightarrow> bool" where
  "is_resource_available_loop r [] = False"
| "is_resource_available_loop r (x # xs) =
     (if name x = r then (if available x = YES then True else False)
      else is_resource_available_loop r xs)"

definition is_resource_available :: "string \<Rightarrow> manager \<Rightarrow> bool" where
  "is_resource_available r s = is_resource_available_loop r (available_resources s)"

text \<open>
  \<^verbatim>\<open>is_waiting_for_resource\<close> looks through all the instructions from the cursor on.
  Resource names are strings of the model and never \<^verbatim>\<open>NULL\<close>.
\<close>

fun is_waiting_for_resource_loop :: "instr_t list \<Rightarrow> string \<Rightarrow> bool" where
  "is_waiting_for_resource_loop [] r = False"
| "is_waiting_for_resource_loop (i # is) r =
     (if instr_type i = REQ_OP \<and> resource_name i = r then True
      else is_waiting_for_resource_loop is r)"

definition is_waiting_for_resource :: "addr option \<Rightarrow> string \<Rightarrow> manager \<Rightarrow> bool" where
  "is_waiting_for_resource pcb r s =
     (case pcb of None \<Rightarrow> False
      | Some p \<Rightarrow>
          if state (pcbs s p) = WAITING
          then is_waiting_for_resource_loop (next_instruction (pcbs s p)) r
          else False)"

text \<open>
  Both walks over the waiting queue take the block they move out of the queue in the same
  way: the link in front of it (\<^verbatim>\<open>prev->next\<close>, or \<^verbatim>\<open>waitingq.first\<close>) is set to
  its successor, and \<^verbatim>\<open>waitingq.last\<close> is set to \<^verbatim>\<open>prev\<close> when it was this block.
\<close>

definition remove_from_waitingq :: "addr option \<Rightarrow> addr \<Rightarrow> manager \<Rightarrow> manager" where
  "remove_from_waitingq prev current s =
     (let s1 = (case prev of
                  Some p \<Rightarrow> set_next p (pcb_next (pcbs s current)) s
                | None \<Rightarrow> s\<lparr>waitingq := (waitingq s)\<lparr>first := pcb_next (pcbs s current)\<rparr>\<rparr>)
      in if last_q (waitingq s1) = Some current
         then s1\<lparr>waitingq := (waitingq s1)\<lparr>last_q := prev\<rparr>\<rparr> else s1)"

fun move_waiting_pcbs_to_rq_loop ::
  "nat \<Rightarrow> string \<Rightarrow> addr option \<Rightarrow> addr option \<Rightarrow> manager \<Rightarrow> manager outcome" where
  "move_waiting_pcbs_to_rq_loop 0 r prev current s = Out_of_fuel"
| "move_waiting_pcbs_to_rq_loop (Suc n) r prev current s =
     (case current of None \<Rightarrow> Returns s
      | Some c \<Rightarrow>
          if is_waiting_for_resource (Some c) r s
          then
            (let temp = pcb_next (pcbs s c) in
             obind (move_proc_to_rq (Some c) (set_next c None (remove_from_waitingq prev c s)))
               (\<lambda>s1. move_waiting_pcbs_to_rq_loop n r prev temp s1))
          else move_waiting_pcbs_to_rq_loop n r (Some c) (pcb_next (pcbs s c)) s)"

definition move_waiting_pcbs_to_rq :: "nat \<Rightarrow> string \<Rightarrow> manager \<Rightarrow> manager outcome" where
  "move_waiting_pcbs_to_rq n r s = move_waiting_pcbs_to_rq_loop n r None (first (waitingq s)) s"

text \<open>
  The loop of \<^verbatim>\<open>release_resource\<close> over the held handles: the first handle with the
  name is unlinked. \<open>None\<close> is \<^verbatim>\<open>found == FALSE\<close>.
\<close>

fun release_resource_loop :: "string \<Rightarrow> resource_t list \<Rightarrow> resource_t list option" where
  "release_resource_loop r [] = None"
| "release_resource_loop r (x # xs) =
     (if name x = r then Some xs
      else (case release_resource_loop r xs of None \<Rightarrow> None | Some ys \<Rightarrow> Some (x # ys)))"

definition release_resource :: "nat \<Rightarrow> addr \<Rightarrow> instr_t \<Rightarrow> manager \<Rightarrow> manager outcome" where
  "release_resource n pcb instr s =
     (case release_resource_loop (resource_name instr) (resources (pcbs s pcb)) of
        None \<Rightarrow> Returns (emit (Log_release_error (proc_name (pcbs s pcb)) (resource_name instr)) s)
      | Some held \<Rightarrow>
          move_waiting_pcbs_to_rq n (resource_name instr)
            (emit (Log_release_released (proc_name (pcbs s pcb)) (resource_name instr))
               (mark_resource_as_available (resource_name instr) (set_resources pcb held s))))"

text \<open>
  \<^verbatim>\<open>move_waiting_to_ready_based_on_resources\<close> walks the waiting queue with a pointer
  to the link it is looking at: \<^verbatim>\<open>&waitingq.first\<close> or \<^verbatim>\<open>&(pcb->next)\<close>.
\<close>

datatype link = Waitingq_first | Next_of addr

definition deref :: "link \<Rightarrow> manager \<Rightarrow> addr option" where
  "deref l s = (case l of Waitingq_first \<Rightarrow> first (waitingq s) | Next_of p \<Rightarrow> pcb_next (pcbs s p))"

definition canMoveToReady :: "addr \<Rightarrow> manager \<Rightarrow> bool" where
  "canMoveToReady process s =
     (case next_instruction (pcbs s process) of [] \<Rightarrow> False
      | i # is \<Rightarrow> is_resource_available (resource_name i) s)"

fun move_waiting_to_ready_loop ::
  "nat \<Rightarrow> link \<Rightarrow> addr option \<Rightarrow> manager \<Rightarrow> manager outcome" where
  "move_waiting_to_ready_loop 0 current prev s = Out_of_fuel"
| "move_waiting_to_ready_loop (Suc n) current prev s =
     (case deref current s of None \<Rightarrow> Returns s
      | Some process \<Rightarrow>
          if canMoveToReady process s
          then
            obind (move_proc_to_rq (Some process) (remove_from_waitingq prev process s))
              (\<lambda>s1. move_waiting_to_ready_loop n
                      (case prev of Some p \<Rightarrow> Next_of p | None \<Rightarrow> Waitingq_first) prev s1)
          else move_waiting_to_ready_loop n (Next_of process) (Some process) s)"

definition move_waiting_to_ready_based_on_resources :: "nat \<Rightarrow> manager \<Rightarrow> manager outcome" where
  "move_waiting_to_ready_based_on_resources n s = move_waiting_to_ready_loop n Waitingq_first None s"

definition execute_instr :: "nat \<Rightarrow> addr \<Rightarrow> instr_t option \<Rightarrow> manager \<Rightarrow> manager outcome" where
  "execute_instr n pcb instr s =
     (case instr of
        Some i \<Rightarrow>
          (case instr_type i of
             REQ_OP \<Rightarrow> request_resource pcb i s
           | REL_OP \<Rightarrow>
               obind (release_resource n pcb i s) (move_waiting_to_ready_based_on_resources n)
           | SEND_OP \<Rightarrow> Returns s
           | RECV_OP \<Rightarrow> Returns s)
      | None \<Rightarrow> Returns (emit Print_no_instruction s))"

text \<open>
  Modelled from the spec: \<^verbatim>\<open>get_new_pcb()\<close> is declared in \<^verbatim>\<open>proc_structs.h\<close> and
  defined in the loader, which is not among the sources. The spec has the registry hand
  out the processes that arrived since the last poll, none of them twice; here each call
  takes the next entry of \<open>new_pcbs\<close>, and \<^verbatim>\<open>NULL\<close> once the list is used up.
\<close>

definition get_new_pcb :: "manager \<Rightarrow> addr option \<times> manager" where
  "get_new_pcb s = (case new_pcbs s of [] \<Rightarrow> (None, s) | a # as \<Rightarrow> (a, s\<lparr>new_pcbs := as\<rparr>))"

definition check_for_new_arrivals :: "manager \<Rightarrow> (bool \<times> manager) outcome" where
  "check_for_new_arrivals s =
     (case get_new_pcb s of
        (None, s1) \<Rightarrow> Returns (False, s1)
      | (Some new_pcb, s1) \<Rightarrow>
          obind (move_proc_to_rq (Some new_pcb) (emit (Print_new_arrival (proc_name (pcbs s1 new_pcb))) s1))
            (\<lambda>s2. Returns (True, s2)))"

section \<open>Deadlock detection\<close>

definition detect_deadlock :: "manager \<Rightarrow> manager" where
  "detect_deadlock s = emit Log_deadlock_detected s"

definition check_deadlock :: "manager \<Rightarrow> bool \<times> manager" where
  "check_deadlock s =
     (if first (readyq s) = None \<and> first (waitingq s) \<noteq> None
      then (True, detect_deadlock s) else (False, s))"

section \<open>The schedulers\<close>

subsection \<open>First come, first served\<close>

text \<open>
  The inner loop of \<^verbatim>\<open>schedule_fcfs\<close> runs the instructions of the dequeued process.
  Its result tells the manager state after the loop.
\<close>

fun schedule_fcfs_run :: "nat \<Rightarrow> addr \<Rightarrow> manager \<Rightarrow> manager outcome" where
  "schedule_fcfs_run 0 current_process s = Out_of_fuel"
| "schedule_fcfs_run (Suc n) current_process s =
     (case next_instruction (pcbs s current_process) of
        [] \<Rightarrow> Returns s
      | i # is \<Rightarrow>
          obind (execute_instr n current_process (Some i) s) (\<lambda>s1.
          obind (check_for_new_arrivals s1) (\<lambda>(new_arrival, s2).
            if state (pcbs s2 current_process) = WAITING
            then (case next_instruction (pcbs s2 current_process) of
                    [] \<Rightarrow> Fault Null_dereference
                  | j # js \<Rightarrow> move_proc_to_wq (Some current_process) (resource_name j) s2)
            else (case next_instruction (pcbs s2 current_process) of
                    [] \<Rightarrow> Fault Null_dereference
                  | j # js \<Rightarrow>
                      schedule_fcfs_run n current_process
                        (set_next_instruction current_process js s2)))))"

fun schedule_fcfs :: "nat \<Rightarrow> manager \<Rightarrow> manager outcome" where
  "schedule_fcfs 0 s = Out_of_fuel"
| "schedule_fcfs (Suc n) s =
     (if first (readyq s) \<noteq> None
      then (case dequeue_pcb (Some Readyq) s of
              (None, s1) \<Rightarrow> Returns s1
            | (Some current_process, s1) \<Rightarrow>
                obind (schedule_fcfs_run n current_process (set_state current_process RUNNING s1))
                  (\<lambda>s2.
                obind (if next_instruction (pcbs s2 current_process) = []
                          \<and> state (pcbs s2 current_process) \<noteq> WAITING
                       then move_proc_to_tq (Some current_process) s2 else Returns s2)
                  (\<lambda>s3. schedule_fcfs n s3)))
      else Returns s)"

text \<open>\<^verbatim>\<open>schedule_rr\<close> has an empty body.\<close>

definition schedule_rr :: "int \<Rightarrow> manager \<Rightarrow> manager" where
  "schedule_rr quantum s = s"

subsection \<open>Priority with preemption\<close>

fun find_highest_priority_proc_loop ::
  "nat \<Rightarrow> addr option \<Rightarrow> addr option \<Rightarrow> int \<Rightarrow> manager \<Rightarrow> addr option outcome" where
  "find_highest_priority_proc_loop 0 current highest_priority_proc highest_priority s = Out_of_fuel"
| "find_highest_priority_proc_loop (Suc n) current highest_priority_proc highest_priority s =
     (case current of None \<Rightarrow> Returns highest_priority_proc
      | Some c \<Rightarrow>
          if priority (pcbs s c) > highest_priority
          then find_highest_priority_proc_loop n (pcb_next (pcbs s c)) (Some c) (priority (pcbs s c)) s
          else find_highest_priority_proc_loop n (pcb_next (pcbs s c))
                 highest_priority_proc highest_priority s)"

definition find_highest_priority_proc :: "nat \<Rightarrow> manager \<Rightarrow> addr option outcome" where
  "find_highest_priority_proc n s =
     find_highest_priority_proc_loop n (first (readyq s)) None INT_MIN s"

text \<open>The search of \<^verbatim>\<open>remove_proc_from_readyq\<close> for the block in front of \<open>proc\<close>.\<close>

fun remove_proc_from_readyq_loop :: "nat \<Rightarrow> addr option \<Rightarrow> addr \<Rightarrow> manager \<Rightarrow> addr option outcome" where
  "remove_proc_from_readyq_loop 0 current proc s = Out_of_fuel"
| "remove_proc_from_readyq_loop (Suc n) current proc s =
     (case current of None \<Rightarrow> Returns None
      | Some c \<Rightarrow>
          if pcb_next (pcbs s c) \<noteq> Some proc
          then remove_proc_from_readyq_loop n (pcb_next (pcbs s c)) proc s
          else Returns (Some c))"

definition remove_proc_from_readyq :: "nat \<Rightarrow> addr option \<Rightarrow> manager \<Rightarrow> manager outcome" where
  "remove_proc_from_readyq n proc s =
     (case proc of None \<Rightarrow> Returns s
      | Some p \<Rightarrow>
          if first (readyq s) = None then Returns s
          else if first (readyq s) = Some p
          then
            (let s1 = s\<lparr>readyq := (readyq s)\<lparr>first := pcb_next (pcbs s p)\<rparr>\<rparr>;
                 s2 = (if last_q (readyq s1) = Some p
                       then s1\<lparr>readyq := (readyq s1)\<lparr>last_q := None\<rparr>\<rparr> else s1)
             in Returns (set_next p None s2))
          else
            obind (remove_proc_from_readyq_loop n (first (readyq s)) p s) (\<lambda>current.
              case current of
                None \<Rightarrow> Returns (set_next p None s)
              | Some c \<Rightarrow>
                  (let s1 = set_next c (pcb_next (pcbs s p)) s;
                       s2 = (if last_q (readyq s1) = Some p
                             then s1\<lparr>readyq := (readyq s1)\<lparr>last_q := Some c\<rparr>\<rparr> else s1)
                   in Returns (set_next p None s2))))"

text \<open>
  The selection at the head of a pass of \<^verbatim>\<open>schedule_pri_w_pre\<close>, made when there is no
  current process.
\<close>

definition select_process :: "nat \<Rightarrow> addr option \<Rightarrow> manager \<Rightarrow> (addr option \<times> manager) outcome" where
  "select_process n current_process s =
     (case current_process of
        Some c \<Rightarrow> Returns (current_process, s)
      | None \<Rightarrow>
          obind (find_highest_priority_proc n s) (\<lambda>found.
            case found of
              None \<Rightarrow> Returns (None, s)
            | Some c \<Rightarrow>
                obind (remove_proc_from_readyq n (Some c) s)
                  (\<lambda>s1. Returns (Some c, set_state c RUNNING s1))))"

text \<open>
  The preemption test of \<^verbatim>\<open>schedule_pri_w_pre\<close>. The source has this block twice in a
  pass, once under \<^verbatim>\<open>if (new_arrival)\<close> and once without a condition.
\<close>

definition preempt :: "nat \<Rightarrow> addr option \<Rightarrow> manager \<Rightarrow> (addr option \<times> manager) outcome" where
  "preempt n current_process s =
     obind (find_highest_priority_proc n s) (\<lambda>highest_priority_proc.
       case highest_priority_proc of
         None \<Rightarrow> Returns (current_process, s)
       | Some h \<Rightarrow>
           if (case current_process of None \<Rightarrow> True
               | Some c \<Rightarrow> higher_priority (priority (pcbs s h)) (priority (pcbs s c)))
           then
             obind (case current_process of
                      None \<Rightarrow> Returns s
                    | Some c \<Rightarrow> move_proc_to_rq (Some c) (set_state c READY s)) (\<lambda>s1.
             obind (remove_proc_from_readyq n (Some h) s1) (\<lambda>s2.
               Returns (Some h, set_state h RUNNING s2)))
           else Returns (current_process, s))"

text \<open>
  The part of a pass that runs one instruction of a current process in state
  \<^verbatim>\<open>RUNNING\<close>, moves the cursor or terminates the process, and makes the two
  preemption tests.
\<close>

definition run_current :: "nat \<Rightarrow> addr \<Rightarrow> manager \<Rightarrow> (addr option \<times> manager) outcome" where
  "run_current n c s =
     obind (execute_instr n c (case next_instruction (pcbs s c) of [] \<Rightarrow> None | i # is \<Rightarrow> Some i) s)
       (\<lambda>s1.
     obind (check_for_new_arrivals s1) (\<lambda>(new_arrival, s2).
     obind (case next_instruction (pcbs s2 c) of
              i # is \<Rightarrow>
                Returns (Some c, if state (pcbs s2 c) = RUNNING
                                 then set_next_instruction c is s2 else s2)
            | [] \<Rightarrow>
                obind (move_proc_to_tq (Some c) (set_state c TERMINATED s2))
                  (\<lambda>s3. Returns (None, s3))) (\<lambda>(current_process, s3).
     obind (if new_arrival then preempt n current_process s3
            else Returns (current_process, s3)) (\<lambda>(current_process, s4).
       preempt n current_process s4))))"

text \<open>
  One pass of the loop of \<^verbatim>\<open>schedule_pri_w_pre\<close>. The first component of the result is
  \<open>True\<close> when the pass leaves the loop through one of its two \<^verbatim>\<open>break\<close>s.
\<close>

definition schedule_pri_w_pre_pass ::
  "nat \<Rightarrow> addr option \<Rightarrow> manager \<Rightarrow> (bool \<times> addr option \<times> manager) outcome" where
  "schedule_pri_w_pre_pass n current_process s =
     obind (select_process n current_process s) (\<lambda>(current_process, s1).
     obind (case current_process of
              None \<Rightarrow> Returns (None, s1)
            | Some c \<Rightarrow>
                if state (pcbs s1 c) = RUNNING then run_current n c s1
                else if state (pcbs s1 c) = WAITING then Returns (None, s1)
                else Returns (Some c, s1)) (\<lambda>(current_process, s2).
     obind (if current_process = None \<and> first (readyq s2) = None \<and> first (waitingq s2) = None
            then obind (check_for_new_arrivals s2) (\<lambda>(new_arrival, s3). Returns (\<not> new_arrival, s3))
            else Returns (False, s2)) (\<lambda>(no_processes_left, s3).
       if no_processes_left then Returns (True, current_process, s3)
       else (case check_deadlock s3 of
               (deadlock, s4) \<Rightarrow> Returns (deadlock, current_process, s4)))))"

fun schedule_pri_w_pre_loop :: "nat \<Rightarrow> addr option \<Rightarrow> manager \<Rightarrow> manager outcome" where
  "schedule_pri_w_pre_loop 0 current_process s = Out_of_fuel"
| "schedule_pri_w_pre_loop (Suc n) current_process s =
     (if first (readyq s) \<noteq> None \<or> first (waitingq s) \<noteq> None \<or> current_process \<noteq> None
      then obind (schedule_pri_w_pre_pass n current_process s) (\<lambda>(stop, current_process, s1).
             if stop then Returns s1 else schedule_pri_w_pre_loop n current_process s1)
      else Returns s)"

definition schedule_pri_w_pre :: "nat \<Rightarrow> manager \<Rightarrow> manager outcome" where
  "schedule_pri_w_pre n s = schedule_pri_w_pre_loop n None s"

definition schedule_processes :: "int \<Rightarrow> int \<Rightarrow> nat \<Rightarrow> manager \<Rightarrow> manager outcome" where
  "schedule_processes sched_type quantum n s =
     (if sched_type = PRIOR then schedule_pri_w_pre n s
      else if sched_type = RR then schedule_fcfs n s
      else if sched_type = FCFS then schedule_fcfs n s
      else Returns s)"

section \<open>Well-formed queues\<close>

text \<open>
  \<open>path s x as y\<close>: following the \<^verbatim>\<open>next\<close> links from \<open>x\<close> visits the blocks \<open>as\<close> in
  this order and arrives at \<open>y\<close>. A queue holds the list \<open>as\<close> when the links lead from
  its \<^verbatim>\<open>first\<close> through \<open>as\<close> to \<^verbatim>\<open>NULL\<close> and its \<^verbatim>\<open>last\<close> is the last block of
  \<open>as\<close> (so \<^verbatim>\<open>first\<close> is \<^verbatim>\<open>NULL\<close> exactly when \<^verbatim>\<open>last\<close> is).
\<close>

primrec path :: "manager \<Rightarrow> addr option \<Rightarrow> addr list \<Rightarrow> addr option \<Rightarrow> bool" where
  "path s x [] y = (x = y)"
| "path s x (a # as) y = (x = Some a \<and> path s (pcb_next (pcbs s a)) as y)"

definition queue_is :: "manager \<Rightarrow> pcb_queue_t \<Rightarrow> addr list \<Rightarrow> bool" where
  "queue_is s q as = (path s (first q) as None
      \<and> last_q q = (if as = [] then None else Some (last as)))"

section \<open>Properties of manager states\<close>

text \<open>
  \<open>queues_only s s'\<close>: from \<open>s\<close> to \<open>s'\<close> nothing but queue links, process states, the
  pending arrivals and the output has changed.
\<close>

definition queues_only :: "manager \<Rightarrow> manager \<Rightarrow> bool" where
  "queues_only s s' =
     (available_resources s' = available_resources s \<and> malloc_fails s' = malloc_fails s
      \<and> (\<forall>a. proc_name (pcbs s' a) = proc_name (pcbs s a)
             \<and> next_instruction (pcbs s' a) = next_instruction (pcbs s a)
             \<and> priority (pcbs s' a) = priority (pcbs s a)
             \<and> resources (pcbs s' a) = resources (pcbs s a)))"

text \<open>
  A process holds a resource when a handle with the name of the resource is in its list.
  Mutual exclusion, in the form that is kept by every step: resource names are unique in the
  resource list (the spec makes the name the identity of a resource; the list is built by the
  loader), no list of handles has a name twice, no two processes have a handle of the same
  name, and the record of every held resource is marked \<^verbatim>\<open>NO\<close>.
\<close>

definition holds :: "manager \<Rightarrow> addr \<Rightarrow> string \<Rightarrow> bool" where
  "holds s p r = (r \<in> name ` set (resources (pcbs s p)))"

definition mutual_exclusion :: "manager \<Rightarrow> bool" where
  "mutual_exclusion s =
     (distinct (map name (available_resources s))
      \<and> (\<forall>p. distinct (map name (resources (pcbs s p))))
      \<and> (\<forall>p q r. holds s p r \<and> holds s q r \<longrightarrow> p = q)
      \<and> (\<forall>p r. holds s p r \<longrightarrow> (\<exists>x\<in>set (available_resources s). name x = r \<and> available x = NO)))"

section \<open>Example workloads\<close>

definition unused_pcb :: pcb_t where
  "unused_pcb = \<lparr>proc_name = [], state = NEW, next_instruction = [], priority = 0,
     resources = [], pcb_next = None\<rparr>"

definition req :: "string \<Rightarrow> instr_t" where
  "req r = \<lparr>instr_type = REQ_OP, resource_name = r, msg = None\<rparr>"

definition rel :: "string \<Rightarrow> instr_t" where
  "rel r = \<lparr>instr_type = REL_OP, resource_name = r, msg = None\<rparr>"

definition loaded_pcb :: "string \<Rightarrow> int \<Rightarrow> instr_t list \<Rightarrow> pcb_t" where
  "loaded_pcb nm pri is = \<lparr>proc_name = nm, state = NEW, next_instruction = is, priority = pri,
     resources = [], pcb_next = None\<rparr>"

definition empty_queue :: pcb_queue_t where
  "empty_queue = \<lparr>first = None, last_q = None\<rparr>"

definition loaded :: "(addr \<Rightarrow> pcb_t) \<Rightarrow> resource_t list \<Rightarrow> addr option list \<Rightarrow> manager" where
  "loaded ps rs arrivals = \<lparr>pcbs = ps, readyq = empty_queue, waitingq = empty_queue,
     terminatedq = empty_queue, available_resources = rs, new_pcbs = arrivals,
     malloc_fails = False, logfile = []\<rparr>"

text \<open>One process, blocked on a resource that is not in the resource list.\<close>

definition one_waiting :: manager where
  "one_waiting =
     (loaded ((\<lambda>a. unused_pcb)(1 := (loaded_pcb ''P1'' 0 [req ''X''])\<lparr>state := WAITING\<rparr>)) [] [])
       \<lparr>waitingq := \<lparr>first = Some 1, last_q = Some 1\<rparr>\<rparr>"

text \<open>
  Process 1 is running and holds \<open>R\<close>; process 2 is ready; \<open>S\<close> is free.
\<close>

definition one_holding :: manager where
  "one_holding =
     (loaded ((\<lambda>a. unused_pcb)
        (1 := (loaded_pcb ''P1'' 0 [rel ''R''])\<lparr>state := RUNNING, resources := [\<lparr>name = ''R'', available = NO\<rparr>]\<rparr>,
         2 := (loaded_pcb ''P2'' 0 [req ''R''])\<lparr>state := READY\<rparr>))
        [\<lparr>name = ''R'', available = NO\<rparr>, \<lparr>name = ''S'', available = YES\<rparr>] [])
       \<lparr>readyq := \<lparr>first = Some 2, last_q = Some 2\<rparr>\<rparr>"

text \<open>
  Process 1 is running, holds \<open>R\<close> and is about to release \<open>S\<close>, which it does not
  hold; process 2 waits for \<open>R\<close>.
\<close>

definition release_nothing :: manager where
  "release_nothing =
     (loaded ((\<lambda>a. unused_pcb)
        (1 := (loaded_pcb ''P1'' 0 [rel ''S'', rel ''R''])
                \<lparr>state := RUNNING, resources := [\<lparr>name = ''R'', available = NO\<rparr>]\<rparr>,
         2 := (loaded_pcb ''P2'' 0 [req ''R''])\<lparr>state := WAITING\<rparr>))
        [\<lparr>name = ''R'', available = NO\<rparr>, \<lparr>name = ''S'', available = YES\<rparr>] [])
       \<lparr>waitingq := \<lparr>first = Some 2, last_q = Some 2\<rparr>\<rparr>"

text \<open>
  A workload for the priority scheduler: process 1 (priority 1) asks for \<open>X\<close>, which is
  not in the resource list; at the first poll process 2 (priority 5) arrives.
\<close>

definition blocked_then_arrival :: manager where
  "blocked_then_arrival =
     (loaded ((\<lambda>a. unused_pcb)
        (1 := (loaded_pcb ''P1'' 1 [req ''X''])\<lparr>state := READY\<rparr>,
         2 := loaded_pcb ''P2'' 5 []))
        [] [Some 2])
       \<lparr>readyq := \<lparr>first = Some 1, last_q = Some 1\<rparr>\<rparr>"

text \<open>A workload of one process, which asks for a resource that is not in the resource list.\<close>

definition one_ready :: manager where
  "one_ready =
     (loaded ((\<lambda>a. unused_pcb)(1 := (loaded_pcb ''P1'' 0 [req ''X''])\<lparr>state := READY\<rparr>)) [] [])
       \<lparr>readyq := \<lparr>first = Some 1, last_q = Some 1\<rparr>\<rparr>"

text \<open>
  A workload of two processes: process 1 asks for \<open>X\<close>, which is not in the resource list,
  and process 2 releases \<open>Y\<close>, which it does not hold. \<open>blocked_twice\<close> is the state
  that \<^verbatim>\<open>schedule_fcfs\<close> reaches from it after the turn of process 1.
\<close>

definition block_then_release :: manager where
  "block_then_release =
     (loaded ((\<lambda>a. unused_pcb)
        (1 := (loaded_pcb ''P1'' 0 [req ''X''])\<lparr>state := READY, pcb_next := Some 2\<rparr>,
         2 := (loaded_pcb ''P2'' 0 [rel ''Y''])\<lparr>state := READY\<rparr>))
        [] [])
       \<lparr>readyq := \<lparr>first = Some 1, last_q = Some 2\<rparr>\<rparr>"

definition blocked_twice :: manager where
  "blocked_twice =
     (loaded ((\<lambda>a. unused_pcb)
        (1 := (loaded_pcb ''P1'' 0 [req ''X''])\<lparr>state := WAITING, pcb_next := Some 1\<rparr>,
         2 := (loaded_pcb ''P2'' 0 [rel ''Y''])\<lparr>state := READY\<rparr>))
        [] [])
       \<lparr>readyq := \<lparr>first = Some 2, last_q = Some 2\<rparr>,
         waitingq := \<lparr>first = Some 1, last_q = Some 1\<rparr>,
         logfile := [Log_request_waiting ''P1'' ''X'', Log_request_waiting ''P1'' ''X'']\<rparr>"

text \<open>
  Processes 2 and 3, both of priority 5, are ready in this order; process 1 (priority 1) and
  process 4 (priority 5) stand for a current process.
\<close>

definition ready_two :: manager where
  "ready_two =
     (loaded ((\<lambda>a. unused_pcb)
        (1 := (loaded_pcb ''P1'' 1 [])\<lparr>state := RUNNING\<rparr>,
         2 := (loaded_pcb ''P2'' 5 [])\<lparr>state := READY, pcb_next := Some 3\<rparr>,
         3 := (loaded_pcb ''P3'' 5 [])\<lparr>state := READY\<rparr>,
         4 := (loaded_pcb ''P4'' 5 [])\<lparr>state := RUNNING\<rparr>))
        [] [])
       \<lparr>readyq := \<lparr>first = Some 2, last_q = Some 3\<rparr>\<rparr>"

text \<open>
  Process 1 is running and holds \<open>A\<close> and \<open>B\<close>. Processes 2, 3 and 4 wait, in this
  order: process 2 is blocked on \<open>B\<close> and will ask for \<open>A\<close> later, process 3 is blocked
  on \<open>B\<close>, process 4 is blocked on \<open>A\<close>. Process 5 is ready.
\<close>

definition later_request :: manager where
  "later_request =
     (loaded ((\<lambda>a. unused_pcb)
        (1 := (loaded_pcb ''P1'' 0 [rel ''A'', rel ''B''])
                \<lparr>state := RUNNING,
                 resources := [\<lparr>name = ''B'', available = NO\<rparr>, \<lparr>name = ''A'', available = NO\<rparr>]\<rparr>,
         2 := (loaded_pcb ''P2'' 0 [req ''B'', req ''A''])\<lparr>state := WAITING, pcb_next := Some 3\<rparr>,
         3 := (loaded_pcb ''P3'' 0 [req ''B''])\<lparr>state := WAITING, pcb_next := Some 4\<rparr>,
         4 := (loaded_pcb ''P4'' 0 [req ''A''])\<lparr>state := WAITING\<rparr>,
         5 := (loaded_pcb ''P5'' 0 [])\<lparr>state := READY\<rparr>))
        [\<lparr>name = ''A'', available = NO\<rparr>, \<lparr>name = ''B'', available = NO\<rparr>] [])
       \<lparr>waitingq := \<lparr>first = Some 2, last_q = Some 4\<rparr>,
         readyq := \<lparr>first = Some 5, last_q = Some 5\<rparr>\<rparr>"

text \<open>
  The state in which \<^verbatim>\<open>schedule_fcfs\<close> enters its inner loop: the head of the ready queue
  is dequeued and set to \<^verbatim>\<open>RUNNING\<close>.
\<close>

definition fcfs_dispatch :: "manager \<Rightarrow> manager" where
  "fcfs_dispatch s =
     (case dequeue_pcb (Some Readyq) s of
        (None, s1) \<Rightarrow> s1
      | (Some current_process, s1) \<Rightarrow> set_state current_process RUNNING s1)"

text \<open>
  A workload of two processes and the resource \<open>A\<close>: process 1 asks for \<open>Z\<close>, which is
  not in the resource list, and then for \<open>A\<close>; process 2 asks for \<open>A\<close> and releases it.
  \<open>woken_once\<close> is the state that \<^verbatim>\<open>schedule_fcfs\<close> reaches from it after the turns of
  process 1 and process 2.
\<close>

definition wake_then_block :: manager where
  "wake_then_block =
     (loaded ((\<lambda>a. unused_pcb)
        (1 := (loaded_pcb ''P1'' 0 [req ''Z'', req ''A''])\<lparr>state := READY, pcb_next := Some 2\<rparr>,
         2 := (loaded_pcb ''P2'' 0 [req ''A'', rel ''A''])\<lparr>state := READY\<rparr>))
        [\<lparr>name = ''A'', available = YES\<rparr>] [])
       \<lparr>readyq := \<lparr>first = Some 1, last_q = Some 2\<rparr>\<rparr>"

definition woken_once :: manager where
  "woken_once =
     (loaded ((\<lambda>a. unused_pcb)
        (1 := (loaded_pcb ''P1'' 0 [req ''Z'', req ''A''])\<lparr>state := READY\<rparr>,
         2 := (loaded_pcb ''P2'' 0 [])\<lparr>state := TERMINATED\<rparr>))
        [\<lparr>name = ''A'', available = YES\<rparr>] [])
       \<lparr>readyq := \<lparr>first = Some 1, last_q = Some 1\<rparr>,
         waitingq := \<lparr>first = Some 1, last_q = None\<rparr>,
         terminatedq := \<lparr>first = Some 2, last_q = Some 2\<rparr>,
         logfile := [Log_request_waiting ''P1'' ''Z'', Log_request_waiting ''P1'' ''Z'',
           Log_request_acquired ''P2'' ''A'', Log_release_released ''P2'' ''A'',
           Log_request_ready ''P1'', Log_terminated ''P2'']\<rparr>"

text \<open>
  A workload for the priority scheduler with the resource \<open>R\<close>: process 1 (priority 1)
  asks for \<open>R\<close> and releases it; process 2 (priority 5), which asks for \<open>R\<close>, arrives at
  the first poll, and process 3 (priority 9), which has no instruction, at the second.
  \<open>holder_ready\<close> is the state that \<^verbatim>\<open>schedule_pri_w_pre\<close> reaches from it after five
  passes, with no current process.
\<close>

definition preempted_while_blocked :: manager where
  "preempted_while_blocked =
     (loaded ((\<lambda>a. unused_pcb)
        (1 := (loaded_pcb ''P1'' 1 [req ''R'', rel ''R''])\<lparr>state := READY\<rparr>,
         2 := loaded_pcb ''P2'' 5 [req ''R''],
         3 := loaded_pcb ''P3'' 9 []))
        [\<lparr>name = ''R'', available = YES\<rparr>] [Some 2, Some 3])
       \<lparr>readyq := \<lparr>first = Some 1, last_q = Some 1\<rparr>\<rparr>"

definition holder_ready :: manager where
  "holder_ready =
     (loaded ((\<lambda>a. unused_pcb)
        (1 := (loaded_pcb ''P1'' 1 [rel ''R''])
                \<lparr>state := READY, resources := [\<lparr>name = ''R'', available = NO\<rparr>]\<rparr>,
         2 := (loaded_pcb ''P2'' 5 [req ''R''])\<lparr>state := WAITING, pcb_next := Some 2\<rparr>,
         3 := (loaded_pcb ''P3'' 9 [])\<lparr>state := TERMINATED\<rparr>))
        [\<lparr>name = ''R'', available = NO\<rparr>] [])
       \<lparr>readyq := \<lparr>first = Some 1, last_q = Some 1\<rparr>,
         waitingq := \<lparr>first = Some 2, last_q = Some 2\<rparr>,
         terminatedq := \<lparr>first = Some 3, last_q = Some 3\<rparr>,
         logfile := [Log_request_acquired ''P1'' ''R'', Print_new_arrival ''P2'',
           Log_request_ready ''P2'', Log_request_ready ''P1'', Log_request_waiting ''P2'' ''R'',
           Print_new_arrival ''P3'', Log_request_ready ''P3'', Log_request_ready ''P2'',
           Print_no_instruction, Log_terminated ''P3'', Log_request_waiting ''P2'' ''R'']\<rparr>"

section \<open>Basic facts\<close>

lemmas example_defs = one_waiting_def one_holding_def release_nothing_def blocked_then_arrival_def
  one_ready_def block_then_release_def blocked_twice_def ready_two_def later_request_def
  wake_then_block_def woken_once_def preempted_while_blocked_def holder_ready_def
  loaded_def loaded_pcb_def unused_pcb_def
  req_def rel_def empty_queue_def

lemma set_next_simps [simp]:
  "proc_name (pcbs (set_next p v s) a) = proc_name (pcbs s a)"
  "state (pcbs (set_next p v s) a) = state (pcbs s a)"
  "next_instruction (pcbs (set_next p v s) a) = next_instruction (pcbs s a)"
  "priority (pcbs (set_next p v s) a) = priority (pcbs s a)"
  "resources (pcbs (set_next p v s) a) = resources (pcbs s a)"
  "pcb_next (pcbs (set_next p v s) a) = (if a = p then v else pcb_next (pcbs s a))"
  "readyq (set_next p v s) = readyq s"
  "waitingq (set_next p v s) = waitingq s"
  "terminatedq (set_next p v s) = terminatedq s"
  "available_resources (set_next p v s) = available_resources s"
  "new_pcbs (set_next p v s) = new_pcbs s"
  "malloc_fails (set_next p v s) = malloc_fails s"
  "logfile (set_next p v s) = logfile s"
  by (simp_all add: set_next_def)

lemma set_state_simps [simp]:
  "proc_name (pcbs (set_state p v s) a) = proc_name (pcbs s a)"
  "state (pcbs (set_state p v s) a) = (if a = p then v else state (pcbs s a))"
  "next_instruction (pcbs (set_state p v s) a) = next_instruction (pcbs s a)"
  "priority (pcbs (set_state p v s) a) = priority (pcbs s a)"
  "resources (pcbs (set_state p v s) a) = resources (pcbs s a)"
  "pcb_next (pcbs (set_state p v s) a) = pcb_next (pcbs s a)"
  "readyq (set_state p v s) = readyq s"
  "waitingq (set_state p v s) = waitingq s"
  "terminatedq (set_state p v s) = terminatedq s"
  "available_resources (set_state p v s) = available_resources s"
  "new_pcbs (set_state p v s) = new_pcbs s"
  "malloc_fails (set_state p v s) = malloc_fails s"
  "logfile (set_state p v s) = logfile s"
  by (simp_all add: set_state_def)

lemma set_next_instruction_simps [simp]:
  "proc_name (pcbs (set_next_instruction p v s) a) = proc_name (pcbs s a)"
  "state (pcbs (set_next_instruction p v s) a) = state (pcbs s a)"
  "next_instruction (pcbs (set_next_instruction p v s) a) = (if a = p then v else next_instruction (pcbs s a))"
  "priority (pcbs (set_next_instruction p v s) a) = priority (pcbs s a)"
  "resources (pcbs (set_next_instruction p v s) a) = resources (pcbs s a)"
  "pcb_next (pcbs (set_next_instruction p v s) a) = pcb_next (pcbs s a)"
  "readyq (set_next_instruction p v s) = readyq s"
  "waitingq (set_next_instruction p v s) = waitingq s"
  "terminatedq (set_next_instruction p v s) = terminatedq s"
  "available_resources (set_next_instruction p v s) = available_resources s"
  "new_pcbs (set_next_instruction p v s) = new_pcbs s"
  "malloc_fails (set_next_instruction p v s) = malloc_fails s"
  "logfile (set_next_instruction p v s) = logfile s"
  by (simp_all add: set_next_instruction_def)

lemma set_resources_simps [simp]:
  "proc_name (pcbs (set_resources p v s) a) = proc_name (pcbs s a)"
  "state (pcbs (set_resources p v s) a) = state (pcbs s a)"
  "next_instruction (pcbs (set_resources p v s) a) = next_instruction (pcbs s a)"
  "priority (pcbs (set_resources p v s) a) = priority (pcbs s a)"
  "resources (pcbs (set_resources p v s) a) = (if a = p then v else resources (pcbs s a))"
  "pcb_next (pcbs (set_resources p v s) a) = pcb_next (pcbs s a)"
  "readyq (set_resources p v s) = readyq s"
  "waitingq (set_resources p v s) = waitingq s"
  "terminatedq (set_resources p v s) = terminatedq s"
  "available_resources (set_resources p v s) = available_resources s"
  "new_pcbs (set_resources p v s) = new_pcbs s"
  "malloc_fails (set_resources p v s) = malloc_fails s"
  "logfile (set_resources p v s) = logfile s"
  by (simp_all add: set_resources_def)

lemma emit_simps [simp]:
  "pcbs (emit e s) = pcbs s"
  "readyq (emit e s) = readyq s"
  "waitingq (emit e s) = waitingq s"
  "terminatedq (emit e s) = terminatedq s"
  "available_resources (emit e s) = available_resources s"
  "new_pcbs (emit e s) = new_pcbs s"
  "malloc_fails (emit e s) = malloc_fails s"
  "logfile (emit e s) = logfile s @ [e]"
  by (simp_all add: emit_def)

lemma set_queue_simps [simp]:
  "pcbs (set_queue q v s) = pcbs s"
  "get_queue q (set_queue q v s) = v"
  "q' \<noteq> q \<Longrightarrow> get_queue q' (set_queue q v s) = get_queue q' s"
  "available_resources (set_queue q v s) = available_resources s"
  "new_pcbs (set_queue q v s) = new_pcbs s"
  "malloc_fails (set_queue q v s) = malloc_fails s"
  "logfile (set_queue q v s) = logfile s"
  by (cases q; cases q'; simp add: set_queue_def get_queue_def)+

lemma get_queue_simps [simp]:
  "get_queue Readyq s = readyq s"
  "get_queue Waitingq s = waitingq s"
  "get_queue Terminatedq s = terminatedq s"
  "get_queue q (set_next p v s) = get_queue q s"
  "get_queue q (set_state p st s) = get_queue q s"
  "get_queue q (emit e s) = get_queue q s"
  by (cases q; simp add: get_queue_def)+

lemma obind_simps [simp]:
  "obind Out_of_fuel f = Out_of_fuel"
  "obind (Fault e) f = Fault e"
  "obind (Returns x) f = f x"
  by (simp_all add: obind_def)

lemma path_cong:
  "(\<And>a. a \<in> set as \<Longrightarrow> pcb_next (pcbs s' a) = pcb_next (pcbs s a)) \<Longrightarrow> path s' x as y = path s x as y"
  by (induction as arbitrary: x) auto

lemma path_append: "path s x (as @ bs) z = (\<exists>y. path s x as y \<and> path s y bs z)"
  by (induction as arbitrary: x) auto

lemma path_None [simp]: "path s None as y = (as = [] \<and> y = None)"
  by (cases as) auto

lemma path_unique: "path s x as None \<Longrightarrow> path s x bs None \<Longrightarrow> as = bs"
proof (induction as arbitrary: x bs)
  case Nil then show ?case by (cases bs) auto
next
  case (Cons a as) then show ?case by (cases bs) auto
qed

lemma path_last_next:
  "path s x as None \<Longrightarrow> as \<noteq> [] \<Longrightarrow> pcb_next (pcbs s (last as)) = None"
  by (induction as arbitrary: x) (auto split: if_splits)

lemma path_snoc:
  "path s x (as @ [a]) y = (path s x as (Some a) \<and> pcb_next (pcbs s a) = y)"
  by (auto simp: path_append)


lemma path_distinct: "path s x as None \<Longrightarrow> distinct as"
proof (induction as arbitrary: x)
  case Nil then show ?case by simp
next
  case (Cons a as)
  have tl: "path s (pcb_next (pcbs s a)) as None" using Cons.prems by simp
  have "a \<notin> set as"
  proof
    assume "a \<in> set as"
    then obtain us vs where as: "as = us @ a # vs" by (auto simp: in_set_conv_decomp)
    with tl have "path s (pcb_next (pcbs s a)) vs None" by (auto simp: path_append)
    with tl have "as = vs" by (rule path_unique)
    with as show False by simp
  qed
  with Cons.IH[OF tl] show ?case by simp
qed

lemma queue_is_distinct: "queue_is s q as \<Longrightarrow> distinct as"
  by (auto simp: queue_is_def dest: path_distinct)

lemma queue_is_Nil [simp]: "queue_is s q [] = (first q = None \<and> last_q q = None)"
  by (auto simp: queue_is_def)

lemma queue_is_first: "queue_is s q as \<Longrightarrow> first q = (case as of [] \<Rightarrow> None | a # _ \<Rightarrow> Some a)"
  by (cases as) (auto simp: queue_is_def)

lemma queue_is_cong:
  "(\<And>a. a \<in> set as \<Longrightarrow> pcb_next (pcbs s' a) = pcb_next (pcbs s a)) \<Longrightarrow> queue_is s' q as = queue_is s q as"
  by (simp add: queue_is_def path_cong[of as s' s])

lemma enqueue_pcb_queue_is:
  assumes q: "queue_is s (get_queue q s) as" and p: "p \<notin> set as"
  shows "enqueue_pcb (Some p) (Some q) s =
           Returns (if as = [] then set_queue q \<lparr>first = Some p, last_q = Some p\<rparr> (set_next p None s)
                    else set_queue q ((get_queue q s)\<lparr>last_q := Some p\<rparr>)
                           (set_next (last as) (Some p) (set_next p None s)))"
  using q by (cases as) (auto simp: enqueue_pcb_def queue_is_def Let_def)

lemma enqueue_pcb_result_queue:
  assumes q: "queue_is s (get_queue q s) as" and p: "p \<notin> set as"
    and r: "enqueue_pcb (Some p) (Some q) s = Returns s'"
  shows "queue_is s' (get_queue q s') (as @ [p])"
proof (cases "as = []")
  case True
  with r q show ?thesis by (auto simp: enqueue_pcb_def queue_is_def Let_def)
next
  case False
  then obtain bs l where as: "as = bs @ [l]" by (metis rev_exhaust)
  have d: "distinct as" using q by (rule queue_is_distinct)
  have pth: "path s (first (get_queue q s)) bs (Some l)" and lst: "last_q (get_queue q s) = Some l"
    using q as by (auto simp: queue_is_def path_snoc)
  have s': "s' = set_queue q ((get_queue q s)\<lparr>last_q := Some p\<rparr>) (set_next l (Some p) (set_next p None s))"
    using enqueue_pcb_queue_is[OF q p] r False as by simp
  have "path s' (first (get_queue q s)) bs (Some l) = path s (first (get_queue q s)) bs (Some l)"
    using d p as by (intro path_cong) (auto simp: s')
  with pth p as show ?thesis
    by (auto simp: queue_is_def path_append s')
qed

lemma dequeue_pcb_Some:
  assumes f: "first (get_queue q s) = Some h"
  shows "fst (dequeue_pcb (Some q) s) = Some h"
    and "get_queue q (snd (dequeue_pcb (Some q) s)) =
           \<lparr>first = pcb_next (pcbs s h),
            last_q = (if pcb_next (pcbs s h) = None then None else last_q (get_queue q s))\<rparr>"
    and "pcb_next (pcbs (snd (dequeue_pcb (Some q) s)) a) = (if a = h then None else pcb_next (pcbs s a))"
  using f by (simp_all add: dequeue_pcb_def Let_def)

lemma dequeue_pcb_queue_is:
  assumes q: "queue_is s (get_queue q s) (h # as)"
  shows "fst (dequeue_pcb (Some q) s) = Some h"
    and "queue_is (snd (dequeue_pcb (Some q) s)) (get_queue q (snd (dequeue_pcb (Some q) s))) as"
proof -
  have d: "h \<notin> set as" using queue_is_distinct[OF q] by simp
  have f: "first (get_queue q s) = Some h" and t: "path s (pcb_next (pcbs s h)) as None"
    and l: "last_q (get_queue q s) = Some (last (h # as))"
    using q by (auto simp: queue_is_def)
  note eff = dequeue_pcb_Some[OF f]
  show "fst (dequeue_pcb (Some q) s) = Some h" by (rule eff)
  have "path (snd (dequeue_pcb (Some q) s)) (pcb_next (pcbs s h)) as None"
    using t d by (subst path_cong[of as _ s]) (auto simp: eff)
  moreover have "pcb_next (pcbs s h) = None \<longleftrightarrow> as = []"
    using t by (cases as) auto
  ultimately show "queue_is (snd (dequeue_pcb (Some q) s)) (get_queue q (snd (dequeue_pcb (Some q) s))) as"
    using l by (auto simp: queue_is_def eff)
qed

subsection \<open>What the queue operations leave alone\<close>

lemma queues_only_refl [simp]: "queues_only s s"
  by (simp add: queues_only_def)

lemma queues_only_trans: "queues_only s s1 \<Longrightarrow> queues_only s1 s2 \<Longrightarrow> queues_only s s2"
  by (simp add: queues_only_def)

lemma queues_only_setters [simp]:
  "queues_only s (set_next p v s)"
  "queues_only s (set_state p st s)"
  "queues_only s (emit e s)"
  "queues_only s (set_queue q qv s)"
  "queues_only s (s\<lparr>readyq := rq\<rparr>)"
  "queues_only s (s\<lparr>waitingq := wq\<rparr>)"
  "queues_only s (s\<lparr>terminatedq := tq\<rparr>)"
  "queues_only s (s\<lparr>new_pcbs := np\<rparr>)"
  by (simp_all add: queues_only_def)

lemma queues_only_step:
  "queues_only s s1 \<Longrightarrow> queues_only s (set_next p v s1)"
  "queues_only s s1 \<Longrightarrow> queues_only s (set_state p st s1)"
  "queues_only s s1 \<Longrightarrow> queues_only s (emit e s1)"
  "queues_only s s1 \<Longrightarrow> queues_only s (set_queue q qv s1)"
  "queues_only s s1 \<Longrightarrow> queues_only s (s1\<lparr>readyq := rq\<rparr>)"
  "queues_only s s1 \<Longrightarrow> queues_only s (s1\<lparr>waitingq := wq\<rparr>)"
  "queues_only s s1 \<Longrightarrow> queues_only s (s1\<lparr>terminatedq := tq\<rparr>)"
  "queues_only s s1 \<Longrightarrow> queues_only s (s1\<lparr>new_pcbs := np\<rparr>)"
  by (simp_all add: queues_only_def)

lemma obind_Returns: "obind m f = Returns y \<longleftrightarrow> (\<exists>x. m = Returns x \<and> f x = Returns y)"
  by (cases m) auto

lemma enqueue_pcb_frame: "enqueue_pcb pcb queue s = Returns s' \<Longrightarrow> queues_only s s'"
  by (auto simp: enqueue_pcb_def Let_def queues_only_def split: option.splits if_splits)

lemma move_proc_to_rq_frame: "move_proc_to_rq pcb s = Returns s' \<Longrightarrow> queues_only s s'"
  by (auto simp: move_proc_to_rq_def obind_Returns queues_only_def split: option.splits
      dest!: enqueue_pcb_frame)

lemma move_proc_to_wq_frame: "move_proc_to_wq pcb r s = Returns s' \<Longrightarrow> queues_only s s'"
  by (auto simp: move_proc_to_wq_def obind_Returns queues_only_def split: option.splits
      dest!: enqueue_pcb_frame)

lemma move_proc_to_tq_frame: "move_proc_to_tq pcb s = Returns s' \<Longrightarrow> queues_only s s'"
  by (auto simp: move_proc_to_tq_def obind_Returns queues_only_def split: option.splits
      dest!: enqueue_pcb_frame)

lemma dequeue_pcb_frame: "queues_only s (snd (dequeue_pcb queue s))"
  by (auto simp: dequeue_pcb_def Let_def queues_only_def split: option.splits)

lemma remove_from_waitingq_frame: "queues_only s (remove_from_waitingq prev c s)"
  by (auto simp: remove_from_waitingq_def Let_def queues_only_def split: option.splits)

lemma move_waiting_pcbs_to_rq_loop_frame:
  "move_waiting_pcbs_to_rq_loop n r prev current s = Returns s' \<Longrightarrow> queues_only s s'"
proof (induction n arbitrary: prev current s)
  case 0 then show ?case by simp
next
  case (Suc n)
  show ?case
  proof (cases current)
    case None with Suc.prems show ?thesis by simp
  next
    case (Some c)
    show ?thesis
    proof (cases "is_waiting_for_resource (Some c) r s")
      case False
      with Suc Some show ?thesis by simp
    next
      case True
      from Suc.prems Some True obtain s4 where
        m: "move_proc_to_rq (Some c) (set_next c None (remove_from_waitingq prev c s)) = Returns s4"
        and l: "move_waiting_pcbs_to_rq_loop n r prev (pcb_next (pcbs s c)) s4 = Returns s'"
        by (auto simp: Let_def obind_Returns)
      have "queues_only s (set_next c None (remove_from_waitingq prev c s))"
        using remove_from_waitingq_frame[of s prev c] by (simp add: queues_only_def)
      with move_proc_to_rq_frame[OF m] Suc.IH[OF l] show ?thesis
        by (blast intro: queues_only_trans)
    qed
  qed
qed

lemma move_waiting_to_ready_loop_frame:
  "move_waiting_to_ready_loop n current prev s = Returns s' \<Longrightarrow> queues_only s s'"
proof (induction n arbitrary: prev current s)
  case 0 then show ?case by simp
next
  case (Suc n)
  show ?case
  proof (cases "deref current s")
    case None with Suc.prems show ?thesis by simp
  next
    case (Some c)
    show ?thesis
    proof (cases "canMoveToReady c s")
      case False
      with Suc Some show ?thesis by simp
    next
      case True
      from Suc.prems Some True obtain s4 where
        m: "move_proc_to_rq (Some c) (remove_from_waitingq prev c s) = Returns s4"
        and l: "move_waiting_to_ready_loop n (case prev of Some p \<Rightarrow> Next_of p | None \<Rightarrow> Waitingq_first) prev s4 = Returns s'"
        by (auto simp: obind_Returns)
      from remove_from_waitingq_frame move_proc_to_rq_frame[OF m] Suc.IH[OF l] show ?thesis
        by (blast intro: queues_only_trans)
    qed
  qed
qed

lemma check_for_new_arrivals_frame:
  "check_for_new_arrivals s = Returns (b, s') \<Longrightarrow> queues_only s s'"
  by (auto simp: check_for_new_arrivals_def get_new_pcb_def obind_Returns queues_only_def
      split: list.splits option.splits dest!: move_proc_to_rq_frame)

lemma check_deadlock_frame: "queues_only s (snd (check_deadlock s))"
  by (simp add: check_deadlock_def detect_deadlock_def queues_only_def)

lemma remove_proc_from_readyq_frame:
  "remove_proc_from_readyq n proc s = Returns s' \<Longrightarrow> queues_only s s'"
  by (auto simp: remove_proc_from_readyq_def Let_def obind_Returns queues_only_def
      split: option.splits if_splits)

lemma queues_only_mutual_exclusion:
  "queues_only s s' \<Longrightarrow> mutual_exclusion s \<Longrightarrow> mutual_exclusion s'"
  by (simp add: queues_only_def mutual_exclusion_def holds_def)

lemma request_resource_loop_names:
  "request_resource_loop r L = Some (h, L') \<Longrightarrow> map name L' = map name L \<and> name h = r \<and> available h = NO"
  by (induction L arbitrary: L') (auto split: if_splits option.splits)

lemma request_resource_loop_ledger:
  "request_resource_loop r L = Some (h, L') \<Longrightarrow>
     (\<exists>x\<in>set L. name x = r \<and> available x = YES)
     \<and> (\<exists>x\<in>set L'. name x = r \<and> available x = NO)
     \<and> (\<forall>x\<in>set L. name x \<noteq> r \<longrightarrow> x \<in> set L')
     \<and> (\<forall>x\<in>set L'. name x \<noteq> r \<longrightarrow> x \<in> set L)"
  by (induction L arbitrary: L') (auto split: if_splits option.splits)

lemma request_resource_loop_None:
  "request_resource_loop r L = None \<longleftrightarrow> (\<forall>x\<in>set L. \<not> (name x = r \<and> available x = YES))"
  by (induction L) (auto split: option.splits)

lemma distinct_names_unique:
  "distinct (map name L) \<Longrightarrow> x \<in> set L \<Longrightarrow> y \<in> set L \<Longrightarrow> name x = name y \<Longrightarrow> x = y"
  by (induction L) (auto simp: image_iff)

lemma is_resource_available_loop_iff:
  "distinct (map name L) \<Longrightarrow>
     is_resource_available_loop r L \<longleftrightarrow> (\<exists>x\<in>set L. name x = r \<and> available x = YES)"
  by (induction L) (auto simp: image_iff)

lemma mark_names: "map name (mark_resource_as_available_loop r L) = map name L"
  by (induction L) auto

lemma mark_others:
  "x \<in> set L \<Longrightarrow> name x \<noteq> r \<Longrightarrow> x \<in> set (mark_resource_as_available_loop r L)"
  by (induction L) auto

lemma mark_available:
  "distinct (map name L) \<Longrightarrow> x \<in> set (mark_resource_as_available_loop r L) \<Longrightarrow> available x = YES
     \<Longrightarrow> x \<in> set L \<or> name x = r"
  by (induction L) (auto split: if_splits)

lemma release_resource_loop_None:
  "release_resource_loop r H = None \<longleftrightarrow> (\<forall>h\<in>set H. name h \<noteq> r)"
  by (induction H) (auto split: option.splits)

lemma release_resource_loop_subset:
  "release_resource_loop r H = Some H' \<Longrightarrow> set H' \<subseteq> set H \<and> r \<in> name ` set H"
  by (induction H arbitrary: H') (auto split: option.splits if_splits)

lemma release_resource_loop_distinct:
  "release_resource_loop r H = Some H' \<Longrightarrow> distinct (map name H) \<Longrightarrow> distinct (map name H')"
proof (induction H arbitrary: H')
  case Nil then show ?case by simp
next
  case (Cons a H)
  show ?case
  proof (cases "name a = r")
    case True with Cons.prems show ?thesis by auto
  next
    case False
    with Cons.prems obtain ys where ys: "release_resource_loop r H = Some ys" "H' = a # ys"
      by (auto split: option.splits)
    from release_resource_loop_subset[OF ys(1)] Cons.prems(2) have "name a \<notin> name ` set ys" by auto
    with Cons.IH[OF ys(1)] Cons.prems(2) ys show ?thesis by simp
  qed
qed

lemma release_resource_loop_gone:
  "release_resource_loop r H = Some H' \<Longrightarrow> distinct (map name H) \<Longrightarrow> r \<notin> name ` set H'"
proof (induction H arbitrary: H')
  case Nil then show ?case by simp
next
  case (Cons a H)
  show ?case
  proof (cases "name a = r")
    case True with Cons.prems show ?thesis by auto
  next
    case False
    with Cons.prems obtain ys where ys: "release_resource_loop r H = Some ys" "H' = a # ys"
      by (auto split: option.splits)
    with Cons.IH[OF ys(1)] Cons.prems(2) False show ?thesis by auto
  qed
qed

lemma request_resource_mutual_exclusion:
  assumes inv: "mutual_exclusion s" and r: "request_resource p i s = Returns s'"
  shows "mutual_exclusion s'"
proof (cases "request_resource_loop (resource_name i) (available_resources s)")
  case None
  with r have "move_proc_to_wq (Some p) (resource_name i) s = Returns s'"
    by (simp add: request_resource_def)
  from move_proc_to_wq_frame[OF this] inv show ?thesis
    by (rule queues_only_mutual_exclusion)
next
  case (Some hl)
  obtain h L' where hl: "hl = (h, L')" by (cases hl)
  let ?r = "resource_name i"
  note n = request_resource_loop_names[OF Some[unfolded hl]]
  note l = request_resource_loop_ledger[OF Some[unfolded hl]]
  from r Some hl have s': "available_resources s' = L'"
    "\<And>a. resources (pcbs s' a) = (if a = p then h # resources (pcbs s p) else resources (pcbs s a))"
    by (auto simp: request_resource_def split: if_splits)
  from inv have d: "distinct (map name (available_resources s))"
    and dh: "\<And>a. distinct (map name (resources (pcbs s a)))"
    and ex: "\<And>a b x. holds s a x \<Longrightarrow> holds s b x \<Longrightarrow> a = b"
    and held: "\<And>a x. holds s a x \<Longrightarrow> \<exists>y\<in>set (available_resources s). name y = x \<and> available y = NO"
    by (auto simp: mutual_exclusion_def)
  have free: "\<not> holds s a ?r" for a
  proof
    assume "holds s a ?r"
    from held[OF this] obtain y where y: "y \<in> set (available_resources s)" "name y = ?r" "available y = NO"
      by auto
    from l obtain x where x: "x \<in> set (available_resources s)" "name x = ?r" "available x = YES" by auto
    from distinct_names_unique[OF d x(1) y(1)] x y show False by simp
  qed
  have h': "holds s' a x \<longleftrightarrow> (if a = p \<and> x = ?r then True else holds s a x)" for a x
    using n free[of a] by (auto simp: holds_def s')
  show ?thesis
    unfolding mutual_exclusion_def
  proof (intro conjI allI impI)
    show "distinct (map name (available_resources s'))" using d n by (simp add: s')
    show "distinct (map name (resources (pcbs s' a)))" for a
      using dh[of a] free[of p] n by (auto simp: s' holds_def)
    show "a = b" if "holds s' a x \<and> holds s' b x" for a b x
      using that ex[of a x b] free by (auto simp: h' split: if_splits)
    show "\<exists>y\<in>set (available_resources s'). name y = x \<and> available y = NO" if "holds s' a x" for a x
    proof (cases "x = ?r")
      case True with l show ?thesis by (auto simp: s')
    next
      case False
      with that have "holds s a x" by (auto simp: h' split: if_splits)
      from held[OF this] False l show ?thesis by (auto simp: s')
    qed
  qed
qed

lemma release_resource_mutual_exclusion:
  assumes inv: "mutual_exclusion s" and r: "release_resource n p i s = Returns s'"
  shows "mutual_exclusion s'"
proof (cases "release_resource_loop (resource_name i) (resources (pcbs s p))")
  case None
  with r have "s' = emit (Log_release_error (proc_name (pcbs s p)) (resource_name i)) s"
    by (simp add: release_resource_def)
  with inv show ?thesis by (auto intro: queues_only_mutual_exclusion[of s])
next
  case (Some H')
  let ?r = "resource_name i"
  define s1 where "s1 = emit (Log_release_released (proc_name (pcbs s p)) ?r)
               (mark_resource_as_available ?r (set_resources p H' s))"
  from r Some have "move_waiting_pcbs_to_rq n ?r s1 = Returns s'"
    by (simp add: release_resource_def s1_def)
  then have f: "queues_only s1 s'"
    by (auto simp: move_waiting_pcbs_to_rq_def dest: move_waiting_pcbs_to_rq_loop_frame)
  from inv have d: "distinct (map name (available_resources s))"
    and dh: "\<And>a. distinct (map name (resources (pcbs s a)))"
    and ex: "\<And>a b x. holds s a x \<Longrightarrow> holds s b x \<Longrightarrow> a = b"
    and held: "\<And>a x. holds s a x \<Longrightarrow> \<exists>y\<in>set (available_resources s). name y = x \<and> available y = NO"
    by (auto simp: mutual_exclusion_def)
  note sub = release_resource_loop_subset[OF Some]
  note gone = release_resource_loop_gone[OF Some dh]
  have s1: "available_resources s1 = mark_resource_as_available_loop ?r (available_resources s)"
    "\<And>a. resources (pcbs s1 a) = (if a = p then H' else resources (pcbs s a))"
    by (simp_all add: s1_def mark_resource_as_available_def)
  have hp: "holds s p ?r" using sub by (simp add: holds_def)
  have h1: "holds s a x \<and> x \<noteq> ?r" if h: "holds s1 a x" for a x
  proof (cases "a = p")
    case True
    with h have "x \<in> name ` set H'" by (simp add: holds_def s1)
    with sub gone True show ?thesis unfolding holds_def by blast
  next
    case False
    with h have "holds s a x" by (simp add: holds_def s1)
    with ex[OF hp, of a] False show ?thesis by auto
  qed
  have "mutual_exclusion s1"
    unfolding mutual_exclusion_def
  proof (intro conjI allI impI)
    show "distinct (map name (available_resources s1))" using d by (simp add: s1 mark_names)
    show "distinct (map name (resources (pcbs s1 a)))" for a
      using dh[of a] release_resource_loop_distinct[OF Some dh] by (simp add: s1)
    show "a = b" if "holds s1 a x \<and> holds s1 b x" for a b x
      using that ex[of a x b] h1 by blast
    show "\<exists>y\<in>set (available_resources s1). name y = x \<and> available y = NO" if "holds s1 a x" for a x
    proof -
      from h1[OF that] have "holds s a x" "x \<noteq> ?r" by auto
      from held[OF this(1)] this(2) show ?thesis by (auto simp: s1 intro: mark_others)
    qed
  qed
  with f show ?thesis by (blast intro: queues_only_mutual_exclusion)
qed

lemma execute_instr_mutual_exclusion:
  assumes inv: "mutual_exclusion s" and r: "execute_instr n p instr s = Returns s'"
  shows "mutual_exclusion s'"
proof (cases instr)
  case None
  with r inv show ?thesis by (auto simp: execute_instr_def intro: queues_only_mutual_exclusion[of s])
next
  case (Some i)
  show ?thesis
  proof (cases "instr_type i")
    case REQ_OP
    with r Some inv show ?thesis by (auto simp: execute_instr_def intro: request_resource_mutual_exclusion)
  next
    case REL_OP
    with r Some obtain s1 where a: "release_resource n p i s = Returns s1"
      and b: "move_waiting_to_ready_based_on_resources n s1 = Returns s'"
      by (auto simp: execute_instr_def obind_Returns)
    from b have "queues_only s1 s'"
      by (auto simp: move_waiting_to_ready_based_on_resources_def dest: move_waiting_to_ready_loop_frame)
    with release_resource_mutual_exclusion[OF inv a] show ?thesis
      by (blast intro: queues_only_mutual_exclusion)
  next
    case SEND_OP with r Some inv show ?thesis by (simp add: execute_instr_def)
  next
    case RECV_OP with r Some inv show ?thesis by (simp add: execute_instr_def)
  qed
qed

lemma set_next_instruction_mutual_exclusion [simp]:
  "mutual_exclusion (set_next_instruction p v s) = mutual_exclusion s"
  by (simp add: mutual_exclusion_def holds_def)

lemma set_state_mutual_exclusion [simp]:
  "mutual_exclusion (set_state p v s) = mutual_exclusion s"
  by (simp add: mutual_exclusion_def holds_def)

lemma queues_only_set_state: "queues_only s s1 \<Longrightarrow> queues_only s (set_state p v s1)"
  by (simp add: queues_only_def)

lemma queues_only_set_state': "queues_only (set_state p v s) s1 \<Longrightarrow> queues_only s s1"
  by (simp add: queues_only_def)

lemma select_process_frame:
  assumes "select_process n cur s = Returns (c, s')"
  shows "queues_only s s'"
proof (cases cur)
  case (Some a)
  with assms show ?thesis by (simp add: select_process_def)
next
  case None
  with assms obtain found where f: "find_highest_priority_proc n s = Returns found"
    and r: "(case found of None \<Rightarrow> Returns (None, s)
            | Some c \<Rightarrow> obind (remove_proc_from_readyq n (Some c) s)
                  (\<lambda>s1. Returns (Some c, set_state c RUNNING s1))) = Returns (c, s')"
    by (auto simp: select_process_def obind_Returns)
  show ?thesis
  proof (cases found)
    case None with r show ?thesis by simp
  next
    case (Some h)
    with r obtain s1 where "remove_proc_from_readyq n (Some h) s = Returns s1"
      "s' = set_state h RUNNING s1"
      by (auto simp: obind_Returns)
    then show ?thesis
      by (auto dest!: remove_proc_from_readyq_frame intro: queues_only_set_state)
  qed
qed

lemma preempt_frame:
  assumes "preempt n cur s = Returns (c, s')"
  shows "queues_only s s'"
proof -
  from assms obtain found where f: "find_highest_priority_proc n s = Returns found"
    and r: "(case found of
         None \<Rightarrow> Returns (cur, s)
       | Some h \<Rightarrow>
           if (case cur of None \<Rightarrow> True
               | Some c \<Rightarrow> higher_priority (priority (pcbs s h)) (priority (pcbs s c)))
           then
             obind (case cur of
                      None \<Rightarrow> Returns s
                    | Some c \<Rightarrow> move_proc_to_rq (Some c) (set_state c READY s)) (\<lambda>s1.
             obind (remove_proc_from_readyq n (Some h) s1) (\<lambda>s2.
               Returns (Some h, set_state h RUNNING s2)))
           else Returns (cur, s)) = Returns (c, s')"
    by (auto simp: preempt_def obind_Returns)
  show ?thesis
  proof (cases found)
    case None with r show ?thesis by simp
  next
    case (Some h)
    show ?thesis
    proof (cases "case cur of None \<Rightarrow> True
               | Some c \<Rightarrow> higher_priority (priority (pcbs s h)) (priority (pcbs s c))")
      case False
      with r Some show ?thesis by simp
    next
      case True
      with r Some obtain s1 s2 where
        a: "(case cur of None \<Rightarrow> Returns s
                    | Some c \<Rightarrow> move_proc_to_rq (Some c) (set_state c READY s)) = Returns s1"
        and b: "remove_proc_from_readyq n (Some h) s1 = Returns s2"
        and c: "s' = set_state h RUNNING s2"
        by (auto simp: obind_Returns)
      from a have "queues_only s s1"
        by (auto split: option.splits dest!: move_proc_to_rq_frame intro: queues_only_set_state')
      with remove_proc_from_readyq_frame[OF b] c show ?thesis
        by (auto intro: queues_only_trans queues_only_set_state)
    qed
  qed
qed

lemma check_for_new_arrivals_mutual_exclusion:
  "check_for_new_arrivals s = Returns (b, s') \<Longrightarrow> mutual_exclusion s \<Longrightarrow> mutual_exclusion s'"
  by (blast intro: queues_only_mutual_exclusion check_for_new_arrivals_frame)

lemma move_proc_to_wq_mutual_exclusion:
  "move_proc_to_wq pcb r s = Returns s' \<Longrightarrow> mutual_exclusion s \<Longrightarrow> mutual_exclusion s'"
  by (blast intro: queues_only_mutual_exclusion move_proc_to_wq_frame)

lemma move_proc_to_tq_mutual_exclusion:
  "move_proc_to_tq pcb s = Returns s' \<Longrightarrow> mutual_exclusion s \<Longrightarrow> mutual_exclusion s'"
  by (blast intro: queues_only_mutual_exclusion move_proc_to_tq_frame)

lemma preempt_mutual_exclusion:
  "preempt n cur s = Returns (c, s') \<Longrightarrow> mutual_exclusion s \<Longrightarrow> mutual_exclusion s'"
  by (blast intro: queues_only_mutual_exclusion preempt_frame)

lemma schedule_fcfs_run_mutual_exclusion:
  "schedule_fcfs_run n p s = Returns s' \<Longrightarrow> mutual_exclusion s \<Longrightarrow> mutual_exclusion s'"
proof (induction n arbitrary: s)
  case 0 then show ?case by simp
next
  case (Suc n)
  show ?case
  proof (cases "next_instruction (pcbs s p)")
    case Nil with Suc.prems show ?thesis by simp
  next
    case (Cons i "is")
    with Suc.prems(1) obtain s1 b s2 where
      e: "execute_instr n p (Some i) s = Returns s1"
      and a: "check_for_new_arrivals s1 = Returns (b, s2)"
      and k: "(if state (pcbs s2 p) = WAITING
            then (case next_instruction (pcbs s2 p) of
                    [] \<Rightarrow> Fault Null_dereference
                  | j # js \<Rightarrow> move_proc_to_wq (Some p) (resource_name j) s2)
            else (case next_instruction (pcbs s2 p) of
                    [] \<Rightarrow> Fault Null_dereference
                  | j # js \<Rightarrow> schedule_fcfs_run n p (set_next_instruction p js s2))) = Returns s'"
      by (auto simp: obind_Returns)
    have m2: "mutual_exclusion s2"
      using execute_instr_mutual_exclusion[OF Suc.prems(2) e] a
      by (rule check_for_new_arrivals_mutual_exclusion[rotated])
    from k m2 show ?thesis
      by (auto split: if_splits list.splits dest: move_proc_to_wq_mutual_exclusion Suc.IH)
  qed
qed

lemma schedule_fcfs_mutual_exclusion:
  "schedule_fcfs n s = Returns s' \<Longrightarrow> mutual_exclusion s \<Longrightarrow> mutual_exclusion s'"
proof (induction n arbitrary: s)
  case 0 then show ?case by simp
next
  case (Suc n)
  show ?case
  proof (cases "first (readyq s) \<noteq> None")
    case False with Suc.prems show ?thesis by simp
  next
    case True
    obtain c s1 where d: "dequeue_pcb (Some Readyq) s = (c, s1)" by (cases "dequeue_pcb (Some Readyq) s")
    have m1: "mutual_exclusion s1"
      using dequeue_pcb_frame[of s "Some Readyq"] d Suc.prems(2)
      by (auto intro: queues_only_mutual_exclusion)
    show ?thesis
    proof (cases c)
      case None with Suc.prems True d m1 show ?thesis by simp
    next
      case (Some cp)
      with Suc.prems(1) True d obtain s2 s3 where
        r: "schedule_fcfs_run n cp (set_state cp RUNNING s1) = Returns s2"
        and t: "(if next_instruction (pcbs s2 cp) = [] \<and> state (pcbs s2 cp) \<noteq> WAITING
                 then move_proc_to_tq (Some cp) s2 else Returns s2) = Returns s3"
        and l: "schedule_fcfs n s3 = Returns s'"
        by (auto simp: obind_Returns)
      have "mutual_exclusion s2" using schedule_fcfs_run_mutual_exclusion[OF r] m1 by simp
      with t have "mutual_exclusion s3"
        by (auto split: if_splits dest: move_proc_to_tq_mutual_exclusion)
      with Suc.IH[OF l] show ?thesis .
    qed
  qed
qed

lemma run_current_mutual_exclusion:
  assumes r: "run_current n c s = Returns (cur, s')" and inv: "mutual_exclusion s"
  shows "mutual_exclusion s'"
proof -
  from r obtain s1 b s2 cur3 s3 cur4 s4 where
    e: "execute_instr n c (case next_instruction (pcbs s c) of [] \<Rightarrow> None | i # is \<Rightarrow> Some i) s = Returns s1"
    and a: "check_for_new_arrivals s1 = Returns (b, s2)"
    and k: "(case next_instruction (pcbs s2 c) of
              i # is \<Rightarrow>
                Returns (Some c, if state (pcbs s2 c) = RUNNING
                                 then set_next_instruction c is s2 else s2)
            | [] \<Rightarrow>
                obind (move_proc_to_tq (Some c) (set_state c TERMINATED s2))
                  (\<lambda>s3. Returns (None, s3))) = Returns (cur3, s3)"
    and p1: "(if b then preempt n cur3 s3 else Returns (cur3, s3)) = Returns (cur4, s4)"
    and p2: "preempt n cur4 s4 = Returns (cur, s')"
    unfolding run_current_def by (auto simp: obind_Returns)
  have "mutual_exclusion s2"
    using execute_instr_mutual_exclusion[OF inv e] a
    by (rule check_for_new_arrivals_mutual_exclusion[rotated])
  with k have "mutual_exclusion s3"
    by (auto simp: obind_Returns split: list.splits if_splits dest!: move_proc_to_tq_mutual_exclusion)
  with p1 have "mutual_exclusion s4"
    by (auto split: if_splits dest: preempt_mutual_exclusion)
  with p2 show ?thesis by (rule preempt_mutual_exclusion)
qed

lemma schedule_pri_w_pre_pass_mutual_exclusion:
  assumes r: "schedule_pri_w_pre_pass n cur s = Returns (stop, cur', s')" and inv: "mutual_exclusion s"
  shows "mutual_exclusion s'"
proof -
  from r obtain cur1 s1 cur2 s2 b s3 where
    sel: "select_process n cur s = Returns (cur1, s1)"
    and run: "(case cur1 of
              None \<Rightarrow> Returns (None, s1)
            | Some c \<Rightarrow>
                if state (pcbs s1 c) = RUNNING then run_current n c s1
                else if state (pcbs s1 c) = WAITING then Returns (None, s1)
                else Returns (Some c, s1)) = Returns (cur2, s2)"
    and arr: "(if cur2 = None \<and> first (readyq s2) = None \<and> first (waitingq s2) = None
            then obind (check_for_new_arrivals s2) (\<lambda>(new_arrival, s3). Returns (\<not> new_arrival, s3))
            else Returns (False, s2)) = Returns (b, s3)"
    and fin: "(if b then Returns (True, cur2, s3)
       else (case check_deadlock s3 of
               (deadlock, s4) \<Rightarrow> Returns (deadlock, cur2, s4))) = Returns (stop, cur', s')"
    unfolding schedule_pri_w_pre_pass_def by (auto simp: obind_Returns)
  have "mutual_exclusion s1"
    using select_process_frame[OF sel] inv by (rule queues_only_mutual_exclusion)
  with run have "mutual_exclusion s2"
    by (auto split: option.splits if_splits dest: run_current_mutual_exclusion)
  with arr have "mutual_exclusion s3"
    by (auto simp: obind_Returns split: if_splits dest: check_for_new_arrivals_mutual_exclusion)
  with fin show ?thesis
    using check_deadlock_frame[of s3]
    by (auto split: if_splits prod.splits intro: queues_only_mutual_exclusion)
qed

lemma schedule_pri_w_pre_loop_mutual_exclusion:
  "schedule_pri_w_pre_loop n cur s = Returns s' \<Longrightarrow> mutual_exclusion s \<Longrightarrow> mutual_exclusion s'"
proof (induction n arbitrary: cur s)
  case 0 then show ?case by simp
next
  case (Suc n)
  show ?case
  proof (cases "first (readyq s) \<noteq> None \<or> first (waitingq s) \<noteq> None \<or> cur \<noteq> None")
    case False with Suc.prems show ?thesis by simp
  next
    case True
    with Suc.prems(1) obtain stop cur1 s1 where
      p: "schedule_pri_w_pre_pass n cur s = Returns (stop, cur1, s1)"
      and l: "(if stop then Returns s1 else schedule_pri_w_pre_loop n cur1 s1) = Returns s'"
      by (auto simp: obind_Returns)
    from schedule_pri_w_pre_pass_mutual_exclusion[OF p Suc.prems(2)] l Suc.IH show ?thesis
      by (auto split: if_splits)
  qed
qed

lemma schedule_processes_mutual_exclusion:
  "schedule_processes sched_type quantum n s = Returns s' \<Longrightarrow> mutual_exclusion s \<Longrightarrow> mutual_exclusion s'"
  by (auto simp: schedule_processes_def schedule_pri_w_pre_def split: if_splits
      dest: schedule_fcfs_mutual_exclusion schedule_pri_w_pre_loop_mutual_exclusion)

lemma request_keeps_unavailable:
  assumes d: "distinct (map name L)" and r: "request_resource_loop r0 L = Some (h, L')"
    and a: "is_resource_available_loop r L'"
  shows "is_resource_available_loop r L \<and> r \<noteq> r0"
proof -
  note n = request_resource_loop_names[OF r]
  note l = request_resource_loop_ledger[OF r]
  from d n have d': "distinct (map name L')" by simp
  from a obtain x where x: "x \<in> set L'" "name x = r" "available x = YES"
    using is_resource_available_loop_iff[OF d'] by auto
  from l obtain y where y: "y \<in> set L'" "name y = r0" "available y = NO" by auto
  have ne: "r \<noteq> r0"
  proof
    assume "r = r0"
    with distinct_names_unique[OF d' x(1) y(1)] x y show False by simp
  qed
  with l x have "x \<in> set L" by auto
  with x ne show ?thesis using is_resource_available_loop_iff[OF d] by auto
qed

lemma mark_keeps_unavailable:
  assumes d: "distinct (map name L)"
    and a: "is_resource_available_loop r (mark_resource_as_available_loop r0 L)" and ne: "r \<noteq> r0"
  shows "is_resource_available_loop r L"
proof -
  have d': "distinct (map name (mark_resource_as_available_loop r0 L))" using d by (simp add: mark_names)
  from a obtain x where x: "x \<in> set (mark_resource_as_available_loop r0 L)" "name x = r" "available x = YES"
    using is_resource_available_loop_iff[OF d'] by auto
  with mark_available[OF d x(1) x(3)] ne have "x \<in> set L" by auto
  with x show ?thesis using is_resource_available_loop_iff[OF d] by auto
qed

lemma queues_only_available:
  "queues_only s s' \<Longrightarrow> is_resource_available r s' = is_resource_available r s"
  by (simp add: queues_only_def is_resource_available_def)

lemma request_resource_acquires:
  assumes inv: "mutual_exclusion s" and r: "request_resource c i s = Returns s'"
    and new: "\<not> holds s c (resource_name i)" "holds s' c (resource_name i)"
  shows "is_resource_available (resource_name i) s \<and> \<not> is_resource_available (resource_name i) s'"
proof (cases "request_resource_loop (resource_name i) (available_resources s)")
  case None
  with r have "move_proc_to_wq (Some c) (resource_name i) s = Returns s'"
    by (simp add: request_resource_def)
  from move_proc_to_wq_frame[OF this] new show ?thesis by (simp add: queues_only_def holds_def)
next
  case (Some hl)
  obtain h L' where hl: "hl = (h, L')" by (cases hl)
  from inv have d: "distinct (map name (available_resources s))" by (simp add: mutual_exclusion_def)
  note n = request_resource_loop_names[OF Some[unfolded hl]]
  note l = request_resource_loop_ledger[OF Some[unfolded hl]]
  from r Some hl have s': "available_resources s' = L'" by (auto simp: request_resource_def split: if_splits)
  have "is_resource_available (resource_name i) s"
    using l is_resource_available_loop_iff[OF d] by (auto simp: is_resource_available_def)
  moreover have "\<not> is_resource_available (resource_name i) s'"
    using request_keeps_unavailable[OF d Some[unfolded hl]] by (auto simp: is_resource_available_def s')
  ultimately show ?thesis by simp
qed

lemma execute_instr_makes_available:
  assumes inv: "mutual_exclusion s" and e: "execute_instr n c instr s = Returns s'"
    and a: "\<not> is_resource_available r s" "is_resource_available r s'"
  shows "\<exists>i. instr = Some i \<and> instr_type i = REL_OP \<and> resource_name i = r \<and> holds s c r"
proof -
  from inv have d: "distinct (map name (available_resources s))" by (simp add: mutual_exclusion_def)
  from e a obtain i where i: "instr = Some i"
    by (cases instr) (auto simp: execute_instr_def is_resource_available_def)
  show ?thesis
  proof (cases "instr_type i")
    case REQ_OP
    with e i have r: "request_resource c i s = Returns s'" by (simp add: execute_instr_def)
    show ?thesis
    proof (cases "request_resource_loop (resource_name i) (available_resources s)")
      case None
      with r have "move_proc_to_wq (Some c) (resource_name i) s = Returns s'"
        by (simp add: request_resource_def)
      from move_proc_to_wq_frame[OF this] a show ?thesis by (simp add: queues_only_available)
    next
      case (Some hl)
      obtain h L' where hl: "hl = (h, L')" by (cases hl)
      from r Some hl have s': "available_resources s' = L'"
        by (auto simp: request_resource_def split: if_splits)
      from request_keeps_unavailable[OF d Some[unfolded hl], of r] a show ?thesis
        by (simp add: is_resource_available_def s')
    qed
  next
    case REL_OP
    with e i obtain s1 where r: "release_resource n c i s = Returns s1"
      and b: "move_waiting_to_ready_based_on_resources n s1 = Returns s'"
      by (auto simp: execute_instr_def obind_Returns)
    from b have "queues_only s1 s'"
      by (auto simp: move_waiting_to_ready_based_on_resources_def dest: move_waiting_to_ready_loop_frame)
    with a have a1: "is_resource_available r s1" by (simp add: queues_only_available)
    show ?thesis
    proof (cases "release_resource_loop (resource_name i) (resources (pcbs s c))")
      case None
      with r have "s1 = emit (Log_release_error (proc_name (pcbs s c)) (resource_name i)) s"
        by (simp add: release_resource_def)
      with a a1 show ?thesis by (simp add: is_resource_available_def)
    next
      case (Some H')
      define s0 where "s0 = emit (Log_release_released (proc_name (pcbs s c)) (resource_name i))
               (mark_resource_as_available (resource_name i) (set_resources c H' s))"
      from r Some have "move_waiting_pcbs_to_rq n (resource_name i) s0 = Returns s1"
        by (simp add: release_resource_def s0_def)
      then have "queues_only s0 s1"
        by (auto simp: move_waiting_pcbs_to_rq_def dest: move_waiting_pcbs_to_rq_loop_frame)
      with a1 have "is_resource_available r s0" by (simp add: queues_only_available)
      then have "is_resource_available_loop r (mark_resource_as_available_loop (resource_name i) (available_resources s))"
        by (simp add: s0_def is_resource_available_def mark_resource_as_available_def)
      with mark_keeps_unavailable[OF d this] a have "r = resource_name i"
        by (auto simp: is_resource_available_def)
      with release_resource_loop_subset[OF Some] i REL_OP show ?thesis by (simp add: holds_def)
    qed
  next
    case SEND_OP with e i a show ?thesis by (simp add: execute_instr_def)
  next
    case RECV_OP with e i a show ?thesis by (simp add: execute_instr_def)
  qed
qed

lemma one_holding_inv: "mutual_exclusion one_holding"
  by (auto simp: mutual_exclusion_def holds_def example_defs)

subsection \<open>Requests and releases\<close>

lemma deref_simps [simp]:
  "deref Waitingq_first s = first (waitingq s)"
  "deref (Next_of p) s = pcb_next (pcbs s p)"
  by (simp_all add: deref_def)

lemma move_waiting_to_ready_loop_none:
  assumes "path s (deref current s) cs None" "\<forall>w\<in>set cs. \<not> canMoveToReady w s" "length cs < n"
  shows "move_waiting_to_ready_loop n current prev s = Returns s"
  using assms
proof (induction cs arbitrary: current prev n)
  case Nil
  then obtain m where "n = Suc m" by (cases n) auto
  with Nil show ?case by simp
next
  case (Cons c cs)
  then obtain m where n: "n = Suc m" by (cases n) auto
  from Cons.prems have d: "deref current s = Some c" and p: "path s (deref (Next_of c) s) cs None"
    by auto
  from Cons.prems n have "move_waiting_to_ready_loop m (Next_of c) (Some c) s = Returns s"
    by (intro Cons.IH[OF p]) auto
  with Cons.prems d n show ?case by simp
qed

lemma canMoveToReady_emit [simp]: "canMoveToReady w (emit e s) = canMoveToReady w s"
  by (simp add: canMoveToReady_def is_resource_available_def split: list.splits)

lemma path_emit [simp]: "path (emit e s) x as y = path s x as y"
  by (rule path_cong) simp

lemma release_resource_error:
  assumes "\<forall>h\<in>set (resources (pcbs s p)). name h \<noteq> resource_name i"
  shows "release_resource n p i s =
           Returns (emit (Log_release_error (proc_name (pcbs s p)) (resource_name i)) s)"
proof -
  from assms have "release_resource_loop (resource_name i) (resources (pcbs s p)) = None"
    by (simp add: release_resource_loop_None)
  then show ?thesis by (simp add: release_resource_def)
qed

lemma execute_instr_release_error:
  assumes nh: "\<forall>h\<in>set (resources (pcbs s p)). name h \<noteq> resource_name i"
    and rel: "instr_type i = REL_OP"
    and q: "queue_is s (waitingq s) ws" and nm: "\<forall>w\<in>set ws. \<not> canMoveToReady w s"
    and n: "length ws < n"
  shows "execute_instr n p (Some i) s =
           Returns (emit (Log_release_error (proc_name (pcbs s p)) (resource_name i)) s)"
proof -
  let ?s1 = "emit (Log_release_error (proc_name (pcbs s p)) (resource_name i)) s"
  have "move_waiting_to_ready_loop n Waitingq_first None ?s1 = Returns ?s1"
    using q nm n by (intro move_waiting_to_ready_loop_none[of _ _ ws]) (auto simp: queue_is_def)
  then show ?thesis
    using rel release_resource_error[OF nh]
    by (simp add: execute_instr_def move_waiting_to_ready_based_on_resources_def)
qed

lemma enqueue_pcb_state:
  "enqueue_pcb pcb queue s = Returns s' \<Longrightarrow> state (pcbs s' a) = state (pcbs s a)"
  by (auto simp: enqueue_pcb_def Let_def split: option.splits if_splits)

lemma check_for_new_arrivals_other:
  assumes c: "check_for_new_arrivals s = Returns (b, s')"
    and o: "case new_pcbs s of Some a # as \<Rightarrow> a \<noteq> p | _ \<Rightarrow> True"
  shows "state (pcbs s' p) = state (pcbs s p)"
    and "next_instruction (pcbs s' p) = next_instruction (pcbs s p)"
proof -
  from check_for_new_arrivals_frame[OF c]
  show "next_instruction (pcbs s' p) = next_instruction (pcbs s p)" by (simp add: queues_only_def)
  from c o show "state (pcbs s' p) = state (pcbs s p)"
    by (auto simp: check_for_new_arrivals_def get_new_pcb_def move_proc_to_rq_def obind_Returns
        split: list.splits option.splits dest!: enqueue_pcb_state[where a = p])
qed

lemma obind_cong_Returns:
  "(\<And>x. m = Returns x \<Longrightarrow> f x = g x) \<Longrightarrow> obind m f = obind m g"
  by (cases m) auto

lemma request_resource_loop_split:
  "request_resource_loop r L = Some (h, L') \<Longrightarrow>
     \<exists>xs x ys. L = xs @ x # ys \<and> name x = r \<and> available x = YES
        \<and> (\<forall>y\<in>set xs. \<not> (name y = r \<and> available y = YES))
        \<and> h = x\<lparr>available := NO\<rparr> \<and> L' = xs @ x\<lparr>available := NO\<rparr> # ys"
proof (induction L arbitrary: L')
  case Nil then show ?case by simp
next
  case (Cons a L)
  show ?case
  proof (cases "name a = r \<and> available a = YES")
    case True
    with Cons.prems have "h = a\<lparr>available := NO\<rparr>" "L' = a\<lparr>available := NO\<rparr> # L" by auto
    with True show ?thesis by (intro exI[of _ "[]"] exI[of _ a] exI[of _ L]) simp
  next
    case False
    with Cons.prems obtain ys' where r: "request_resource_loop r L = Some (h, ys')" and L': "L' = a # ys'"
      by (auto split: option.splits)
    from Cons.IH[OF r] obtain xs x ys where
      "L = xs @ x # ys" "name x = r" "available x = YES"
      "\<forall>y\<in>set xs. \<not> (name y = r \<and> available y = YES)"
      "h = x\<lparr>available := NO\<rparr>" "ys' = xs @ x\<lparr>available := NO\<rparr> # ys" by blast
    with False L' show ?thesis
      by (intro exI[of _ "a # xs"] exI[of _ x] exI[of _ ys]) auto
  qed
qed

lemma queue_is_set_state [simp]: "queue_is (set_state p v s) q as = queue_is s q as"
  by (rule queue_is_cong) simp

lemma queue_is_emit [simp]: "queue_is (emit e s) q as = queue_is s q as"
  by (rule queue_is_cong) simp

lemma move_proc_to_wq_queue_is:
  assumes q: "queue_is s (waitingq s) ws" and p: "p \<notin> set ws"
  shows "\<exists>s'. move_proc_to_wq (Some p) r s = Returns s'
      \<and> queue_is s' (waitingq s') (ws @ [p])
      \<and> state (pcbs s' p) = WAITING
      \<and> logfile s' = logfile s @ [Log_request_waiting (proc_name (pcbs s p)) r]
      \<and> queues_only s s' \<and> readyq s' = readyq s \<and> terminatedq s' = terminatedq s"
proof -
  let ?s0 = "set_state p WAITING s"
  have q0: "queue_is ?s0 (get_queue Waitingq ?s0) ws" using q by simp
  let ?s1 = "if ws = [] then set_queue Waitingq \<lparr>first = Some p, last_q = Some p\<rparr> (set_next p None ?s0)
                    else set_queue Waitingq ((get_queue Waitingq ?s0)\<lparr>last_q := Some p\<rparr>)
                           (set_next (last ws) (Some p) (set_next p None ?s0))"
  have e: "enqueue_pcb (Some p) (Some Waitingq) ?s0 = Returns ?s1"
    by (rule enqueue_pcb_queue_is[OF q0 p])
  have q1: "queue_is ?s1 (get_queue Waitingq ?s1) (ws @ [p])"
    by (rule enqueue_pcb_result_queue[OF q0 p e])
  let ?s' = "emit (Log_request_waiting (proc_name (pcbs ?s1 p)) r) ?s1"
  have m: "move_proc_to_wq (Some p) r s = Returns ?s'"
    using e by (simp add: move_proc_to_wq_def)
  have "state (pcbs ?s' p) = WAITING" by simp
  moreover have "queue_is ?s' (waitingq ?s') (ws @ [p])" using q1 by simp
  moreover have "logfile ?s' = logfile s @ [Log_request_waiting (proc_name (pcbs s p)) r]"
    by (simp add: set_queue_def)
  moreover have "queues_only s ?s'" using move_proc_to_wq_frame[OF m] .
  moreover have "readyq ?s' = readyq s \<and> terminatedq ?s' = terminatedq s"
    by (simp add: set_queue_def)
  ultimately show ?thesis using m by blast
qed

subsection \<open>Selection by priority\<close>

lemma find_highest_priority_proc_loop_first_max:
  assumes "path s cur cs None" "length cs < n"
  shows "\<exists>r. find_highest_priority_proc_loop n cur hpp hp s = Returns r
      \<and> ((\<forall>c\<in>set cs. priority (pcbs s c) \<le> hp) \<longrightarrow> r = hpp)
      \<and> ((\<exists>c\<in>set cs. hp < priority (pcbs s c)) \<longrightarrow>
           (\<exists>xs h ys. cs = xs @ h # ys \<and> r = Some h \<and> hp < priority (pcbs s h)
              \<and> (\<forall>x\<in>set xs. priority (pcbs s x) < priority (pcbs s h))
              \<and> (\<forall>y\<in>set ys. priority (pcbs s y) \<le> priority (pcbs s h))))"
  using assms
proof (induction cs arbitrary: cur n hpp hp)
  case Nil
  then obtain m where "n = Suc m" by (cases n) auto
  with Nil show ?case by simp
next
  case (Cons c cs)
  then obtain m where n: "n = Suc m" by (cases n) auto
  from Cons.prems have cur: "cur = Some c" and p: "path s (pcb_next (pcbs s c)) cs None"
    and l: "length cs < m" using n by auto
  show ?case
  proof (cases "hp < priority (pcbs s c)")
    case True
    from Cons.IH[OF p l, of "Some c" "priority (pcbs s c)"] obtain r where
      r: "find_highest_priority_proc_loop m (pcb_next (pcbs s c)) (Some c) (priority (pcbs s c)) s = Returns r"
      and a: "(\<forall>x\<in>set cs. priority (pcbs s x) \<le> priority (pcbs s c)) \<longrightarrow> r = Some c"
      and b: "(\<exists>x\<in>set cs. priority (pcbs s c) < priority (pcbs s x)) \<longrightarrow>
           (\<exists>xs h ys. cs = xs @ h # ys \<and> r = Some h \<and> priority (pcbs s c) < priority (pcbs s h)
              \<and> (\<forall>x\<in>set xs. priority (pcbs s x) < priority (pcbs s h))
              \<and> (\<forall>y\<in>set ys. priority (pcbs s y) \<le> priority (pcbs s h)))"
      by blast
    have res: "find_highest_priority_proc_loop n cur hpp hp s = Returns r"
      using r True cur n by simp
    have "\<exists>xs h ys. c # cs = xs @ h # ys \<and> r = Some h \<and> hp < priority (pcbs s h)
              \<and> (\<forall>x\<in>set xs. priority (pcbs s x) < priority (pcbs s h))
              \<and> (\<forall>y\<in>set ys. priority (pcbs s y) \<le> priority (pcbs s h))"
    proof (cases "\<forall>x\<in>set cs. priority (pcbs s x) \<le> priority (pcbs s c)")
      case True
      with a have "r = Some c" by simp
      with True \<open>hp < priority (pcbs s c)\<close> show ?thesis
        by (intro exI[of _ "[]"] exI[of _ c] exI[of _ cs]) simp
    next
      case False
      with b obtain xs h ys where x: "cs = xs @ h # ys" "r = Some h"
        "priority (pcbs s c) < priority (pcbs s h)"
        "\<forall>x\<in>set xs. priority (pcbs s x) < priority (pcbs s h)"
        "\<forall>y\<in>set ys. priority (pcbs s y) \<le> priority (pcbs s h)" by (auto simp: not_le)
      with \<open>hp < priority (pcbs s c)\<close> show ?thesis
        by (intro exI[of _ "c # xs"] exI[of _ h] exI[of _ ys]) auto
    qed
    with res True show ?thesis by (auto simp: not_le)
  next
    case False
    from Cons.IH[OF p l, of hpp hp] obtain r where
      r: "find_highest_priority_proc_loop m (pcb_next (pcbs s c)) hpp hp s = Returns r"
      and a: "(\<forall>x\<in>set cs. priority (pcbs s x) \<le> hp) \<longrightarrow> r = hpp"
      and b: "(\<exists>x\<in>set cs. hp < priority (pcbs s x)) \<longrightarrow>
           (\<exists>xs h ys. cs = xs @ h # ys \<and> r = Some h \<and> hp < priority (pcbs s h)
              \<and> (\<forall>x\<in>set xs. priority (pcbs s x) < priority (pcbs s h))
              \<and> (\<forall>y\<in>set ys. priority (pcbs s y) \<le> priority (pcbs s h)))"
      by blast
    have res: "find_highest_priority_proc_loop n cur hpp hp s = Returns r"
      using r False cur n by simp
    have "(\<exists>x\<in>set (c # cs). hp < priority (pcbs s x)) \<longrightarrow>
           (\<exists>xs h ys. c # cs = xs @ h # ys \<and> r = Some h \<and> hp < priority (pcbs s h)
              \<and> (\<forall>x\<in>set xs. priority (pcbs s x) < priority (pcbs s h))
              \<and> (\<forall>y\<in>set ys. priority (pcbs s y) \<le> priority (pcbs s h)))"
    proof
      assume "\<exists>x\<in>set (c # cs). hp < priority (pcbs s x)"
      with False have "\<exists>x\<in>set cs. hp < priority (pcbs s x)" by auto
      with b obtain xs h ys where x: "cs = xs @ h # ys" "r = Some h"
        "hp < priority (pcbs s h)"
        "\<forall>x\<in>set xs. priority (pcbs s x) < priority (pcbs s h)"
        "\<forall>y\<in>set ys. priority (pcbs s y) \<le> priority (pcbs s h)" by auto
      with False show "\<exists>xs h ys. c # cs = xs @ h # ys \<and> r = Some h \<and> hp < priority (pcbs s h)
              \<and> (\<forall>x\<in>set xs. priority (pcbs s x) < priority (pcbs s h))
              \<and> (\<forall>y\<in>set ys. priority (pcbs s y) \<le> priority (pcbs s h))"
        by (intro exI[of _ "c # xs"] exI[of _ h] exI[of _ ys]) auto
    qed
    with res a False show ?thesis by (auto simp: not_less)
  qed
qed

lemma find_highest_priority_proc_first_max:
  assumes q: "queue_is s (readyq s) rs" and n: "length rs < n"
    and pr: "\<forall>r\<in>set rs. INT_MIN < priority (pcbs s r)"
  shows "rs = [] \<longrightarrow> find_highest_priority_proc n s = Returns None"
    and "rs \<noteq> [] \<longrightarrow> (\<exists>xs h ys. rs = xs @ h # ys
           \<and> find_highest_priority_proc n s = Returns (Some h)
           \<and> (\<forall>x\<in>set xs. priority (pcbs s x) < priority (pcbs s h))
           \<and> (\<forall>y\<in>set ys. priority (pcbs s y) \<le> priority (pcbs s h)))"
proof -
  from q have p: "path s (first (readyq s)) rs None" by (simp add: queue_is_def)
  from find_highest_priority_proc_loop_first_max[OF p n, of None INT_MIN] obtain r where
    r: "find_highest_priority_proc n s = Returns r"
    and a: "(\<forall>c\<in>set rs. priority (pcbs s c) \<le> INT_MIN) \<longrightarrow> r = None"
    and b: "(\<exists>c\<in>set rs. INT_MIN < priority (pcbs s c)) \<longrightarrow>
           (\<exists>xs h ys. rs = xs @ h # ys \<and> r = Some h \<and> INT_MIN < priority (pcbs s h)
              \<and> (\<forall>x\<in>set xs. priority (pcbs s x) < priority (pcbs s h))
              \<and> (\<forall>y\<in>set ys. priority (pcbs s y) \<le> priority (pcbs s h)))"
    unfolding find_highest_priority_proc_def by blast
  from r a show "rs = [] \<longrightarrow> find_highest_priority_proc n s = Returns None" by auto
  show "rs \<noteq> [] \<longrightarrow> (\<exists>xs h ys. rs = xs @ h # ys
           \<and> find_highest_priority_proc n s = Returns (Some h)
           \<and> (\<forall>x\<in>set xs. priority (pcbs s x) < priority (pcbs s h))
           \<and> (\<forall>y\<in>set ys. priority (pcbs s y) \<le> priority (pcbs s h)))"
  proof
    assume "rs \<noteq> []"
    then obtain c where "c \<in> set rs" by (cases rs) auto
    with pr have "\<exists>c\<in>set rs. INT_MIN < priority (pcbs s c)" by auto
    with b r show "\<exists>xs h ys. rs = xs @ h # ys
           \<and> find_highest_priority_proc n s = Returns (Some h)
           \<and> (\<forall>x\<in>set xs. priority (pcbs s x) < priority (pcbs s h))
           \<and> (\<forall>y\<in>set ys. priority (pcbs s y) \<le> priority (pcbs s h))" by auto
  qed
qed

lemma remove_proc_from_readyq_loop_pred:
  assumes "path s cur xs (Some h)" "xs \<noteq> []" "h \<notin> set xs" "length xs < n"
  shows "remove_proc_from_readyq_loop n cur h s = Returns (Some (last xs))"
  using assms
proof (induction xs arbitrary: cur n)
  case Nil then show ?case by simp
next
  case (Cons c xs)
  then obtain m where n: "n = Suc m" by (cases n) auto
  from Cons.prems have cur: "cur = Some c" and p: "path s (pcb_next (pcbs s c)) xs (Some h)" by auto
  show ?case
  proof (cases xs)
    case Nil
    with p cur n show ?thesis by simp
  next
    case (Cons c' xs')
    with p have nx: "pcb_next (pcbs s c) = Some c'" by simp
    with Cons.prems(3) Cons have ne: "pcb_next (pcbs s c) \<noteq> Some h" by auto
    from Cons.IH[OF p, of m] Cons Cons.prems n
    have "remove_proc_from_readyq_loop m (pcb_next (pcbs s c)) h s = Returns (Some (last xs))" by auto
    with ne cur n Cons show ?thesis by simp
  qed
qed

lemma path_upd_other:
  "(\<And>a. a \<in> set as \<Longrightarrow> pcb_next (pcbs s' a) = pcb_next (pcbs s a)) \<Longrightarrow> path s x as y \<Longrightarrow> path s' x as y"
  by (simp add: path_cong[of as s' s])

lemma remove_proc_from_readyq_queue_is:
  assumes q: "queue_is s (readyq s) (xs @ h # ys)" and n: "length (xs @ h # ys) < n"
  shows "\<exists>s'. remove_proc_from_readyq n (Some h) s = Returns s'
      \<and> queue_is s' (readyq s') (xs @ ys)
      \<and> pcb_next (pcbs s' h) = None
      \<and> (\<forall>a. state (pcbs s' a) = state (pcbs s a))
      \<and> queues_only s s' \<and> waitingq s' = waitingq s \<and> terminatedq s' = terminatedq s
      \<and> logfile s' = logfile s \<and> new_pcbs s' = new_pcbs s
      \<and> (\<forall>a. a \<notin> set (xs @ h # ys) \<longrightarrow> pcb_next (pcbs s' a) = pcb_next (pcbs s a))"
proof -
  have d: "distinct (xs @ h # ys)" using q by (rule queue_is_distinct)
  from q have p: "path s (first (readyq s)) xs (Some h)" and py: "path s (pcb_next (pcbs s h)) ys None"
    and l: "last_q (readyq s) = Some (last (h # ys))"
    by (auto simp: queue_is_def path_append)
  have lh: "last_q (readyq s) = Some h \<longleftrightarrow> ys = []"
    using l d by (cases ys rule: rev_cases) auto
  show ?thesis
  proof (cases xs)
    case Nil
    with p have f: "first (readyq s) = Some h" by simp
    let ?s1 = "s\<lparr>readyq := (readyq s)\<lparr>first := pcb_next (pcbs s h)\<rparr>\<rparr>"
    let ?s2 = "if last_q (readyq ?s1) = Some h
                       then ?s1\<lparr>readyq := (readyq ?s1)\<lparr>last_q := None\<rparr>\<rparr> else ?s1"
    let ?s' = "set_next h None ?s2"
    have r: "remove_proc_from_readyq n (Some h) s = Returns ?s'"
      using f by (simp add: remove_proc_from_readyq_def Let_def)
    have "path ?s' (pcb_next (pcbs s h)) ys None"
      using py d by (auto intro!: path_upd_other[of ys _ s, rotated])
    moreover have "ys = [] \<longleftrightarrow> pcb_next (pcbs s h) = None" using py by (cases ys) auto
    ultimately have "queue_is ?s' (readyq ?s') (xs @ ys)"
      using Nil lh l by (auto simp: queue_is_def)
    moreover have "queues_only s ?s'" by (simp add: queues_only_def)
    moreover have "\<forall>a. a \<notin> set (xs @ h # ys) \<longrightarrow> pcb_next (pcbs ?s' a) = pcb_next (pcbs s a)"
      by auto
    moreover have "pcb_next (pcbs ?s' h) = None" "\<forall>a. state (pcbs ?s' a) = state (pcbs s a)"
      "waitingq ?s' = waitingq s" "terminatedq ?s' = terminatedq s" "logfile ?s' = logfile s"
      "new_pcbs ?s' = new_pcbs s"
      by simp_all
    ultimately show ?thesis using r by blast
  next
    case (Cons x xs')
    with p have f: "first (readyq s) = Some x" "x \<noteq> h" using d by auto
    from Cons obtain bs c where xs: "xs = bs @ [c]" by (metis list.distinct(1) rev_exhaust)
    have ch: "c \<noteq> h" "c \<notin> set bs" "h \<notin> set bs" "c \<notin> set ys" "h \<notin> set ys"
      using d xs by auto
    have lp: "remove_proc_from_readyq_loop n (first (readyq s)) h s = Returns (Some (last xs))"
      using p d n Cons by (intro remove_proc_from_readyq_loop_pred) auto
    then have lp: "remove_proc_from_readyq_loop n (first (readyq s)) h s = Returns (Some c)"
      using xs by simp
    let ?s1 = "set_next c (pcb_next (pcbs s h)) s"
    let ?s2 = "if last_q (readyq ?s1) = Some h
                             then ?s1\<lparr>readyq := (readyq ?s1)\<lparr>last_q := Some c\<rparr>\<rparr> else ?s1"
    let ?s' = "set_next h None ?s2"
    have r: "remove_proc_from_readyq n (Some h) s = Returns ?s'"
      using f lp by (simp add: remove_proc_from_readyq_def Let_def)
    from p xs have pb: "path s (first (readyq s)) bs (Some c)"
      by (simp add: path_snoc)
    have 1: "path ?s' (first (readyq s)) bs (Some c)"
      using pb ch by (auto intro!: path_upd_other[of bs _ s, rotated])
    have 2: "pcb_next (pcbs ?s' c) = pcb_next (pcbs s h)" using ch by simp
    have 3: "path ?s' (pcb_next (pcbs s h)) ys None"
      using py ch by (auto intro!: path_upd_other[of ys _ s, rotated])
    have 4: "first (readyq ?s') = first (readyq s)" by simp
    have "path ?s' (first (readyq s)) (bs @ [c] @ ys) None"
      using 1 2 3 by (simp add: path_append)
    then have 5: "path ?s' (first (readyq ?s')) (xs @ ys) None" using xs 4 by simp
    have 6: "last_q (readyq ?s') = (if xs @ ys = [] then None else Some (last (xs @ ys)))"
      using lh l xs by (cases "ys = []") auto
    have "queue_is ?s' (readyq ?s') (xs @ ys)"
      using 5 6 unfolding queue_is_def by blast
    moreover have "queues_only s ?s'" by (simp add: queues_only_def)
    moreover have "\<forall>a. a \<notin> set (xs @ h # ys) \<longrightarrow> pcb_next (pcbs ?s' a) = pcb_next (pcbs s a)"
      using xs by auto
    moreover have "pcb_next (pcbs ?s' h) = None" "\<forall>a. state (pcbs ?s' a) = state (pcbs s a)"
      "waitingq ?s' = waitingq s" "terminatedq ?s' = terminatedq s" "logfile ?s' = logfile s"
      "new_pcbs ?s' = new_pcbs s"
      by simp_all
    ultimately show ?thesis using r by blast
  qed
qed

lemma move_proc_to_rq_queue_is:
  assumes q: "queue_is s (readyq s) rs" and p: "p \<notin> set rs"
  shows "\<exists>s'. move_proc_to_rq (Some p) s = Returns s'
      \<and> queue_is s' (readyq s') (rs @ [p])
      \<and> (\<forall>a. state (pcbs s' a) = (if a = p then READY else state (pcbs s a)))
      \<and> logfile s' = logfile s @ [Log_request_ready (proc_name (pcbs s p))]
      \<and> queues_only s s' \<and> waitingq s' = waitingq s \<and> terminatedq s' = terminatedq s
      \<and> new_pcbs s' = new_pcbs s
      \<and> (\<forall>a. a \<notin> set (rs @ [p]) \<longrightarrow> pcb_next (pcbs s' a) = pcb_next (pcbs s a))"
proof -
  let ?s0 = "set_state p READY s"
  have q0: "queue_is ?s0 (get_queue Readyq ?s0) rs" using q by simp
  let ?s1 = "if rs = [] then set_queue Readyq \<lparr>first = Some p, last_q = Some p\<rparr> (set_next p None ?s0)
                    else set_queue Readyq ((get_queue Readyq ?s0)\<lparr>last_q := Some p\<rparr>)
                           (set_next (last rs) (Some p) (set_next p None ?s0))"
  have e: "enqueue_pcb (Some p) (Some Readyq) ?s0 = Returns ?s1"
    by (rule enqueue_pcb_queue_is[OF q0 p])
  have q1: "queue_is ?s1 (get_queue Readyq ?s1) (rs @ [p])"
    by (rule enqueue_pcb_result_queue[OF q0 p e])
  let ?s' = "emit (Log_request_ready (proc_name (pcbs ?s1 p))) ?s1"
  have m: "move_proc_to_rq (Some p) s = Returns ?s'"
    using e by (simp add: move_proc_to_rq_def)
  have "\<forall>a. state (pcbs ?s' a) = (if a = p then READY else state (pcbs s a))" by simp
  moreover have "queue_is ?s' (readyq ?s') (rs @ [p])" using q1 by simp
  moreover have "logfile ?s' = logfile s @ [Log_request_ready (proc_name (pcbs s p))]"
    by (simp add: set_queue_def)
  moreover have "queues_only s ?s'" using move_proc_to_rq_frame[OF m] .
  moreover have "waitingq ?s' = waitingq s \<and> terminatedq ?s' = terminatedq s \<and> new_pcbs ?s' = new_pcbs s"
    by (simp add: set_queue_def)
  moreover have "\<forall>a. a \<notin> set (rs @ [p]) \<longrightarrow> pcb_next (pcbs ?s' a) = pcb_next (pcbs s a)"
    by auto
  ultimately show ?thesis using m by blast
qed

lemma preempt_decision:
  assumes q: "queue_is s (readyq s) rs"
    and pr: "\<forall>r\<in>set rs. INT_MIN < priority (pcbs s r)"
    and n: "length rs + 1 < n"
    and nc: "\<forall>c. cur = Some c \<longrightarrow> c \<notin> set rs"
  shows "\<exists>cur' s' rs'. preempt n cur s = Returns (cur', s')
      \<and> queue_is s' (readyq s') rs'
      \<and> (\<forall>a. priority (pcbs s' a) = priority (pcbs s a))
      \<and> (\<forall>c'. cur' = Some c' \<longrightarrow> (\<forall>r\<in>set rs'. priority (pcbs s' r) \<le> priority (pcbs s' c')))
      \<and> (cur' = None \<longrightarrow> cur = None \<and> rs = [])
      \<and> (cur' = cur \<longrightarrow> s' = s \<and> rs' = rs)
      \<and> (cur' \<noteq> cur \<longrightarrow>
           (\<exists>xs h ys. rs = xs @ h # ys \<and> cur' = Some h
              \<and> (\<forall>x\<in>set xs. priority (pcbs s x) < priority (pcbs s h))
              \<and> (\<forall>y\<in>set ys. priority (pcbs s y) \<le> priority (pcbs s h))
              \<and> rs' = xs @ ys @ (case cur of Some c \<Rightarrow> [c] | None \<Rightarrow> [])
              \<and> state (pcbs s' h) = RUNNING
              \<and> (\<forall>c. cur = Some c \<longrightarrow>
                    state (pcbs s' c) = READY \<and> priority (pcbs s c) < priority (pcbs s h))))"
proof (cases "rs = []")
  case True
  with find_highest_priority_proc_first_max(1)[OF q _ pr, of n] n
  have "find_highest_priority_proc n s = Returns None" by simp
  then have "preempt n cur s = Returns (cur, s)" by (simp add: preempt_def)
  with q True show ?thesis by (intro exI[of _ cur] exI[of _ s] exI[of _ "[]"]) simp
next
  case False
  from find_highest_priority_proc_first_max(2)[OF q _ pr, of n] n False
  obtain xs h ys where rs: "rs = xs @ h # ys"
    and f: "find_highest_priority_proc n s = Returns (Some h)"
    and lo: "\<forall>x\<in>set xs. priority (pcbs s x) < priority (pcbs s h)"
    and hi: "\<forall>y\<in>set ys. priority (pcbs s y) \<le> priority (pcbs s h)"
    by auto
  have mx: "\<forall>r\<in>set rs. priority (pcbs s r) \<le> priority (pcbs s h)"
    using lo hi rs by auto
  show ?thesis
  proof (cases "case cur of None \<Rightarrow> True
               | Some c \<Rightarrow> higher_priority (priority (pcbs s h)) (priority (pcbs s c))")
    case False
    then obtain c where c: "cur = Some c" "priority (pcbs s h) \<le> priority (pcbs s c)"
      by (auto simp: higher_priority_def split: option.splits if_splits)
    with f have "preempt n cur s = Returns (cur, s)"
      by (simp add: preempt_def higher_priority_def)
    moreover have "\<forall>r\<in>set rs. priority (pcbs s r) \<le> priority (pcbs s c)"
      using mx c by auto
    ultimately show ?thesis using q c by (intro exI[of _ cur] exI[of _ s] exI[of _ rs]) simp
  next
    case True
    let ?tail = "case cur of Some c \<Rightarrow> [c] | None \<Rightarrow> []"
    have "\<exists>s1. (case cur of None \<Rightarrow> Returns s
                    | Some c \<Rightarrow> move_proc_to_rq (Some c) (set_state c READY s)) = Returns s1
        \<and> queue_is s1 (readyq s1) (rs @ ?tail)
        \<and> queues_only s s1
        \<and> (\<forall>c. cur = Some c \<longrightarrow> state (pcbs s1 c) = READY)"
    proof (cases cur)
      case None with q show ?thesis by simp
    next
      case (Some c)
      have "queue_is (set_state c READY s) (readyq (set_state c READY s)) rs" using q by simp
      from move_proc_to_rq_queue_is[OF this, of c] nc Some
      obtain s1 where "move_proc_to_rq (Some c) (set_state c READY s) = Returns s1"
        "queue_is s1 (readyq s1) (rs @ [c])" "queues_only (set_state c READY s) s1"
        "\<forall>a. state (pcbs s1 a) = (if a = c then READY else state (pcbs (set_state c READY s) a))"
        by auto
      with Some show ?thesis by (auto simp: queues_only_def)
    qed
    then obtain s1 where
      m: "(case cur of None \<Rightarrow> Returns s
                    | Some c \<Rightarrow> move_proc_to_rq (Some c) (set_state c READY s)) = Returns s1"
      and q1: "queue_is s1 (readyq s1) (xs @ h # (ys @ ?tail))"
      and f1: "queues_only s s1"
      and st1: "\<forall>c. cur = Some c \<longrightarrow> state (pcbs s1 c) = READY"
      using rs by auto
    have "length (xs @ h # (ys @ ?tail)) < n" using n rs by (auto split: option.splits)
    from remove_proc_from_readyq_queue_is[OF q1 this]
    obtain s2 where
      r: "remove_proc_from_readyq n (Some h) s1 = Returns s2"
      and q2: "queue_is s2 (readyq s2) (xs @ (ys @ ?tail))"
      and f2: "queues_only s1 s2"
      and st2: "\<forall>a. state (pcbs s2 a) = state (pcbs s1 a)"
      by blast
    let ?s' = "set_state h RUNNING s2"
    have res: "preempt n cur s = Returns (Some h, ?s')"
      using f True m r by (simp add: preempt_def)
    have pri: "\<forall>a. priority (pcbs ?s' a) = priority (pcbs s a)"
      using f1 f2 by (simp add: queues_only_def)
    have hc: "\<forall>c. cur = Some c \<longrightarrow> c \<noteq> h \<and> priority (pcbs s c) < priority (pcbs s h)"
      using True nc rs by (auto simp: higher_priority_def split: if_splits)
    have inv: "\<forall>r\<in>set (xs @ ys @ ?tail). priority (pcbs ?s' r) \<le> priority (pcbs ?s' h)"
      using pri lo hi hc by (auto split: option.splits)
    have q': "queue_is ?s' (readyq ?s') (xs @ ys @ ?tail)" using q2 by simp
    have st: "state (pcbs ?s' h) = RUNNING"
      "\<forall>c. cur = Some c \<longrightarrow> state (pcbs ?s' c) = READY"
      using st1 st2 hc by auto
    have ne: "Some h \<noteq> cur" using hc by auto
    show ?thesis
      using res q' pri inv st rs lo hi hc ne
      by (intro exI[of _ "Some h"] exI[of _ ?s'] exI[of _ "xs @ ys @ ?tail"]) auto
  qed
qed

lemma select_process_preempt: "select_process n None s = preempt n None s"
  by (cases "find_highest_priority_proc n s")
    (simp_all add: select_process_def preempt_def split: option.splits)

lemma run_current_ends_in_preempt:
  "run_current n c s = Returns (cur', s') \<Longrightarrow> \<exists>cur3 s3. preempt n cur3 s3 = Returns (cur', s')"
  by (auto simp: run_current_def obind_Returns)

subsection \<open>Waking up on a release\<close>

lemma remove_from_waitingq_simps [simp]:
  "pcb_next (pcbs (remove_from_waitingq prev c s) a) =
     (if prev = Some a then pcb_next (pcbs s c) else pcb_next (pcbs s a))"
  "state (pcbs (remove_from_waitingq prev c s) a) = state (pcbs s a)"
  "proc_name (pcbs (remove_from_waitingq prev c s) a) = proc_name (pcbs s a)"
  "next_instruction (pcbs (remove_from_waitingq prev c s) a) = next_instruction (pcbs s a)"
  "readyq (remove_from_waitingq prev c s) = readyq s"
  "terminatedq (remove_from_waitingq prev c s) = terminatedq s"
  "new_pcbs (remove_from_waitingq prev c s) = new_pcbs s"
  "logfile (remove_from_waitingq prev c s) = logfile s"
  "first (waitingq (remove_from_waitingq prev c s)) =
     (if prev = None then pcb_next (pcbs s c) else first (waitingq s))"
  "last_q (waitingq (remove_from_waitingq prev c s)) =
     (if last_q (waitingq s) = Some c then prev else last_q (waitingq s))"
  by (auto simp: remove_from_waitingq_def Let_def split: option.splits)

lemma is_waiting_for_resource_cong:
  "state (pcbs s' w) = state (pcbs s w) \<Longrightarrow> next_instruction (pcbs s' w) = next_instruction (pcbs s w)
     \<Longrightarrow> is_waiting_for_resource (Some w) r s' = is_waiting_for_resource (Some w) r s"
  by (simp add: is_waiting_for_resource_def)

lemma is_waiting_for_resource_loop_iff:
  "is_waiting_for_resource_loop js r \<longleftrightarrow> (\<exists>j\<in>set js. instr_type j = REQ_OP \<and> resource_name j = r)"
  by (induction js) auto

lemma is_waiting_for_resource_iff:
  "is_waiting_for_resource (Some w) r s \<longleftrightarrow>
     state (pcbs s w) = WAITING
     \<and> (\<exists>j\<in>set (next_instruction (pcbs s w)). instr_type j = REQ_OP \<and> resource_name j = r)"
  by (simp add: is_waiting_for_resource_def is_waiting_for_resource_loop_iff)

lemma move_waiting_pcbs_to_rq_loop_correct:
  assumes "path s (first (waitingq s)) ks cur" "path s cur cs None"
    and "last_q (waitingq s) = (if ks @ cs = [] then None else Some (last (ks @ cs)))"
    and "prev = (if ks = [] then None else Some (last ks))"
    and "queue_is s (readyq s) rs"
    and "distinct (ks @ cs @ rs)"
    and "length cs < n"
  shows "\<exists>s'. move_waiting_pcbs_to_rq_loop n r prev cur s = Returns s'
     \<and> queue_is s' (waitingq s') (ks @ filter (\<lambda>w. \<not> is_waiting_for_resource (Some w) r s) cs)
     \<and> queue_is s' (readyq s') (rs @ filter (\<lambda>w. is_waiting_for_resource (Some w) r s) cs)
     \<and> (\<forall>a. state (pcbs s' a) =
            (if a \<in> set cs \<and> is_waiting_for_resource (Some a) r s then READY else state (pcbs s a)))
     \<and> queues_only s s'
     \<and> logfile s' = logfile s @ map (\<lambda>w. Log_request_ready (proc_name (pcbs s w)))
                                    (filter (\<lambda>w. is_waiting_for_resource (Some w) r s) cs)
     \<and> terminatedq s' = terminatedq s \<and> new_pcbs s' = new_pcbs s
     \<and> (\<forall>a. a \<notin> set (ks @ cs @ rs) \<longrightarrow> pcb_next (pcbs s' a) = pcb_next (pcbs s a))"
  using assms
proof (induction cs arbitrary: s ks rs n cur prev)
  case Nil
  then obtain m where "n = Suc m" by (cases n) auto
  with Nil show ?case by (auto simp: queue_is_def)
next
  case (Cons c cs)
  then obtain m where n: "n = Suc m" and m: "length cs < m" by (cases n) auto
  note pk = Cons.prems(1) and pc = Cons.prems(2) and lw = Cons.prems(3) and pv = Cons.prems(4)
    and rq = Cons.prems(5) and d = Cons.prems(6)
  from pc have cur: "cur = Some c" and pt: "path s (pcb_next (pcbs s c)) cs None" by auto
  let ?W = "\<lambda>s w. is_waiting_for_resource (Some w) r s"
  show ?case
  proof (cases "?W s c")
    case False
    have pk': "path s (first (waitingq s)) (ks @ [c]) (pcb_next (pcbs s c))"
      using pk cur by (simp add: path_append)
    have lw': "last_q (waitingq s) = (if (ks @ [c]) @ cs = [] then None else Some (last ((ks @ [c]) @ cs)))"
      using lw by simp
    have pv': "Some c = (if ks @ [c] = [] then None else Some (last (ks @ [c])))" by simp
    have d': "distinct ((ks @ [c]) @ cs @ rs)" using d by auto
    from Cons.IH[OF pk' pt lw' pv' rq d' m, of ] obtain s' where
      r: "move_waiting_pcbs_to_rq_loop m r (Some c) (pcb_next (pcbs s c)) s = Returns s'"
      and w: "queue_is s' (waitingq s') ((ks @ [c]) @ filter (\<lambda>w. \<not> ?W s w) cs)"
      and rest: "queue_is s' (readyq s') (rs @ filter (?W s) cs)"
        "\<forall>a. state (pcbs s' a) = (if a \<in> set cs \<and> ?W s a then READY else state (pcbs s a))"
        "queues_only s s'"
        "logfile s' = logfile s @ map (\<lambda>w. Log_request_ready (proc_name (pcbs s w))) (filter (?W s) cs)"
        "terminatedq s' = terminatedq s \<and> new_pcbs s' = new_pcbs s"
        "\<forall>a. a \<notin> set ((ks @ [c]) @ cs @ rs) \<longrightarrow> pcb_next (pcbs s' a) = pcb_next (pcbs s a)"
      by blast
    have res: "move_waiting_pcbs_to_rq_loop n r prev cur s = Returns s'"
      using r False cur n by simp
    from res w rest False show ?thesis
      by (intro exI[of _ s']) auto
  next
    case True
    let ?s1 = "remove_from_waitingq prev c s"
    let ?s3 = "set_next c None ?s1"
    from d have cd: "c \<notin> set ks" "c \<notin> set cs" "c \<notin> set rs" "distinct ks" "distinct cs" "distinct rs"
      "set ks \<inter> set cs = {}" "set ks \<inter> set rs = {}" "set cs \<inter> set rs = {}"
      by auto
    have nx3: "\<And>a. pcb_next (pcbs ?s3 a) =
        (if a = c then None else if prev = Some a then pcb_next (pcbs s c) else pcb_next (pcbs s a))"
      by simp
    have pvk: "\<And>a. prev = Some a \<Longrightarrow> a \<in> set ks" using pv by (auto split: if_splits)
    have rq3: "queue_is ?s3 (readyq ?s3) rs"
      using rq cd pvk by (subst queue_is_cong[of rs _ s]) (auto simp: nx3)
    from move_proc_to_rq_queue_is[OF rq3 cd(3)] obtain s4 where
      m4: "move_proc_to_rq (Some c) ?s3 = Returns s4"
      and rq4: "queue_is s4 (readyq s4) (rs @ [c])"
      and st4: "\<forall>a. state (pcbs s4 a) = (if a = c then READY else state (pcbs ?s3 a))"
      and lg4: "logfile s4 = logfile ?s3 @ [Log_request_ready (proc_name (pcbs ?s3 c))]"
      and f4: "queues_only ?s3 s4"
      and wq4: "waitingq s4 = waitingq ?s3" and tq4: "terminatedq s4 = terminatedq ?s3"
      and np4: "new_pcbs s4 = new_pcbs ?s3"
      and nx4: "\<forall>a. a \<notin> set (rs @ [c]) \<longrightarrow> pcb_next (pcbs s4 a) = pcb_next (pcbs ?s3 a)"
      by blast
    have f04: "queues_only s s4"
      using f4 remove_from_waitingq_frame[of s prev c] by (simp add: queues_only_def)
    have nxk: "\<And>a. a \<in> set ks \<or> a \<in> set cs \<Longrightarrow> pcb_next (pcbs s4 a) =
        (if prev = Some a then pcb_next (pcbs s c) else pcb_next (pcbs s a))"
      using nx4 cd by (auto simp: nx3)
    have pk4: "path s4 (first (waitingq s4)) ks (pcb_next (pcbs s c))"
    proof (cases "ks = []")
      case True
      with pv show ?thesis by (simp add: wq4)
    next
      case False
      then obtain bs l where ks: "ks = bs @ [l]" by (metis rev_exhaust)
      with pv have prev: "prev = Some l" by simp
      from pk ks cur have pb: "path s (first (waitingq s)) bs (Some l)" by (simp add: path_snoc)
      have "path s4 (first (waitingq s)) bs (Some l)"
        using pb cd ks nxk prev by (subst path_cong[of bs _ s]) auto
      moreover have "pcb_next (pcbs s4 l) = pcb_next (pcbs s c)" using nxk[of l] ks prev by simp
      ultimately show ?thesis using ks prev by (simp add: wq4 path_snoc)
    qed
    have pc4: "path s4 (pcb_next (pcbs s c)) cs None"
      using pt cd pvk nxk by (subst path_cong[of cs _ s]) auto
    have lc: "last_q (waitingq s) = Some c \<longleftrightarrow> cs = []"
      using lw cd by (cases cs rule: rev_cases) auto
    have lw4: "last_q (waitingq s4) = (if ks @ cs = [] then None else Some (last (ks @ cs)))"
      using lw lc pv by (auto simp: wq4)
    have pv4: "prev = (if ks = [] then None else Some (last ks))" by (rule pv)
    have d4: "distinct (ks @ cs @ (rs @ [c]))" using d by auto
    from Cons.IH[OF pk4 pc4 lw4 pv4 rq4 d4 m] obtain s' where
      r: "move_waiting_pcbs_to_rq_loop m r prev (pcb_next (pcbs s c)) s4 = Returns s'"
      and w: "queue_is s' (waitingq s') (ks @ filter (\<lambda>w. \<not> ?W s4 w) cs)"
      and rr: "queue_is s' (readyq s') ((rs @ [c]) @ filter (?W s4) cs)"
      and st: "\<forall>a. state (pcbs s' a) = (if a \<in> set cs \<and> ?W s4 a then READY else state (pcbs s4 a))"
      and fr: "queues_only s4 s'"
      and lg: "logfile s' = logfile s4 @ map (\<lambda>w. Log_request_ready (proc_name (pcbs s4 w))) (filter (?W s4) cs)"
      and tq: "terminatedq s' = terminatedq s4 \<and> new_pcbs s' = new_pcbs s4"
      and nx: "\<forall>a. a \<notin> set (ks @ cs @ (rs @ [c])) \<longrightarrow> pcb_next (pcbs s' a) = pcb_next (pcbs s4 a)"
      by blast
    have Weq: "\<And>w. w \<noteq> c \<Longrightarrow> ?W s4 w = ?W s w"
      using st4 f04 by (intro is_waiting_for_resource_cong) (auto simp: queues_only_def)
    have Wc: "\<forall>w\<in>set cs. ?W s4 w = ?W s w"
    proof
      fix w assume "w \<in> set cs"
      with cd have "w \<noteq> c" by auto
      then show "?W s4 w = ?W s w" by (rule Weq)
    qed
    have filt: "filter (?W s4) cs = filter (?W s) cs" "filter (\<lambda>w. \<not> ?W s4 w) cs = filter (\<lambda>w. \<not> ?W s w) cs"
      using Wc by (simp_all cong: filter_cong)
    have pn: "\<And>w. proc_name (pcbs s4 w) = proc_name (pcbs s w)" using f04 by (simp add: queues_only_def)
    have res: "move_waiting_pcbs_to_rq_loop n r prev cur s = Returns s'"
      using r True cur n m4 by (simp add: Let_def)
    have 1: "queue_is s' (waitingq s') (ks @ filter (\<lambda>w. \<not> ?W s w) (c # cs))"
      using w True by (simp add: filt)
    have 2: "queue_is s' (readyq s') (rs @ filter (?W s) (c # cs))"
      using rr True by (simp add: filt)
    have 3: "\<forall>a. state (pcbs s' a) = (if a \<in> set (c # cs) \<and> ?W s a then READY else state (pcbs s a))"
      using st st4 True Weq cd by auto
    have 4: "queues_only s s'" using f04 fr by (rule queues_only_trans)
    have 5: "logfile s' = logfile s @ map (\<lambda>w. Log_request_ready (proc_name (pcbs s w))) (filter (?W s) (c # cs))"
      using lg lg4 True by (simp add: filt pn)
    have 6: "terminatedq s' = terminatedq s \<and> new_pcbs s' = new_pcbs s"
      using tq tq4 np4 by simp
    have 7: "\<forall>a. a \<notin> set (ks @ (c # cs) @ rs) \<longrightarrow> pcb_next (pcbs s' a) = pcb_next (pcbs s a)"
      using nx nx4 pvk by (auto simp: nx3)
    from res 1 2 3 4 5 6 7 show ?thesis by blast
  qed
qed

text \<open>The equations that run the model on a concrete state.\<close>

lemmas model_defs = schedule_processes_def FCFS_def RR_def PRIOR_def schedule_pri_w_pre_def
  schedule_pri_w_pre_pass_def run_current_def preempt_def select_process_def
  remove_proc_from_readyq_def find_highest_priority_proc_def INT_MIN_def higher_priority_def
  check_deadlock_def detect_deadlock_def check_for_new_arrivals_def get_new_pcb_def
  execute_instr_def move_waiting_to_ready_based_on_resources_def canMoveToReady_def deref_def
  release_resource_def move_waiting_pcbs_to_rq_def remove_from_waitingq_def
  is_waiting_for_resource_def is_resource_available_def mark_resource_as_available_def
  request_resource_def move_proc_to_rq_def move_proc_to_wq_def move_proc_to_tq_def
  dequeue_pcb_def enqueue_pcb_def set_queue_def get_queue_def set_next_def set_state_def
  set_next_instruction_def set_resources_def emit_def Let_def

subsection \<open>Requests on a well-formed waiting queue\<close>

text \<open>
  A process \<open>p\<close> executes a request for \<open>r\<close>. If the resource list has an
  available record named \<open>r\<close> (and \<^verbatim>\<open>malloc\<close> succeeds), the first such record is marked
  \<^verbatim>\<open>NO\<close>, a handle for \<open>r\<close> is put at the head of the handles of \<open>p\<close>, the line
  ``acquired'' is written, and neither the queues nor the state of \<open>p\<close> change. If there is
  no such record (\<open>r\<close> is taken or unknown), \<open>p\<close> gets the state \<^verbatim>\<open>WAITING\<close>, is put
  at the tail of the waiting queue (a well-formed queue that does not hold \<open>p\<close> yet), the line
  ``waiting'' is written, and the resources stay as they are.
\<close>

lemma request_resource_result:
  "((\<exists>x\<in>set (available_resources s). name x = resource_name i \<and> available x = YES)
      \<and> \<not> malloc_fails s \<longrightarrow>
     (\<exists>s' xs x ys. request_resource p i s = Returns s'
        \<and> available_resources s = xs @ x # ys \<and> name x = resource_name i \<and> available x = YES
        \<and> (\<forall>y\<in>set xs. \<not> (name y = resource_name i \<and> available y = YES))
        \<and> available_resources s' = xs @ x\<lparr>available := NO\<rparr> # ys
        \<and> resources (pcbs s' p) = \<lparr>name = resource_name i, available = NO\<rparr> # resources (pcbs s p)
        \<and> logfile s' = logfile s @ [Log_request_acquired (proc_name (pcbs s p)) (resource_name i)]
        \<and> state (pcbs s' p) = state (pcbs s p)
        \<and> readyq s' = readyq s \<and> waitingq s' = waitingq s \<and> terminatedq s' = terminatedq s))
   \<and> (\<not> (\<exists>x\<in>set (available_resources s). name x = resource_name i \<and> available x = YES)
        \<and> queue_is s (waitingq s) ws \<and> p \<notin> set ws \<longrightarrow>
     (\<exists>s'. request_resource p i s = Returns s'
        \<and> state (pcbs s' p) = WAITING
        \<and> queue_is s' (waitingq s') (ws @ [p])
        \<and> logfile s' = logfile s @ [Log_request_waiting (proc_name (pcbs s p)) (resource_name i)]
        \<and> available_resources s' = available_resources s
        \<and> resources (pcbs s' p) = resources (pcbs s p)
        \<and> readyq s' = readyq s \<and> terminatedq s' = terminatedq s))"
proof (intro conjI impI)
  assume a: "(\<exists>x\<in>set (available_resources s). name x = resource_name i \<and> available x = YES)
      \<and> \<not> malloc_fails s"
  then have "request_resource_loop (resource_name i) (available_resources s) \<noteq> None"
    by (simp add: request_resource_loop_None)
  then obtain h L' where l: "request_resource_loop (resource_name i) (available_resources s) = Some (h, L')"
    by auto
  from request_resource_loop_split[OF l] obtain xs x ys where
    sp: "available_resources s = xs @ x # ys" "name x = resource_name i" "available x = YES"
      "\<forall>y\<in>set xs. \<not> (name y = resource_name i \<and> available y = YES)"
      "h = x\<lparr>available := NO\<rparr>" "L' = xs @ x\<lparr>available := NO\<rparr> # ys" by blast
  let ?s' = "emit (Log_request_acquired (proc_name (pcbs s p)) (resource_name i))
               (set_resources p (h # resources (pcbs s p)) (s\<lparr>available_resources := L'\<rparr>))"
  have r: "request_resource p i s = Returns ?s'" using l a by (simp add: request_resource_def)
  have hh: "h = \<lparr>name = resource_name i, available = NO\<rparr>" using sp by simp
  show "\<exists>s' xs x ys. request_resource p i s = Returns s'
        \<and> available_resources s = xs @ x # ys \<and> name x = resource_name i \<and> available x = YES
        \<and> (\<forall>y\<in>set xs. \<not> (name y = resource_name i \<and> available y = YES))
        \<and> available_resources s' = xs @ x\<lparr>available := NO\<rparr> # ys
        \<and> resources (pcbs s' p) = \<lparr>name = resource_name i, available = NO\<rparr> # resources (pcbs s p)
        \<and> logfile s' = logfile s @ [Log_request_acquired (proc_name (pcbs s p)) (resource_name i)]
        \<and> state (pcbs s' p) = state (pcbs s p)
        \<and> readyq s' = readyq s \<and> waitingq s' = waitingq s \<and> terminatedq s' = terminatedq s"
    using r sp(1-4) sp(6) hh
    by (intro exI[of _ ?s'] exI[of _ xs] exI[of _ x] exI[of _ ys]) simp
next
  assume a: "\<not> (\<exists>x\<in>set (available_resources s). name x = resource_name i \<and> available x = YES)
        \<and> queue_is s (waitingq s) ws \<and> p \<notin> set ws"
  then have "request_resource_loop (resource_name i) (available_resources s) = None"
    by (simp add: request_resource_loop_None)
  then have r: "request_resource p i s = move_proc_to_wq (Some p) (resource_name i) s"
    by (simp add: request_resource_def)
  from a move_proc_to_wq_queue_is[of s ws p "resource_name i"] obtain s' where
    "move_proc_to_wq (Some p) (resource_name i) s = Returns s'"
    "queue_is s' (waitingq s') (ws @ [p])" "state (pcbs s' p) = WAITING"
    "logfile s' = logfile s @ [Log_request_waiting (proc_name (pcbs s p)) (resource_name i)]"
    "queues_only s s'" "readyq s' = readyq s" "terminatedq s' = terminatedq s" by blast
  with r show "\<exists>s'. request_resource p i s = Returns s'
        \<and> state (pcbs s' p) = WAITING
        \<and> queue_is s' (waitingq s') (ws @ [p])
        \<and> logfile s' = logfile s @ [Log_request_waiting (proc_name (pcbs s p)) (resource_name i)]
        \<and> available_resources s' = available_resources s
        \<and> resources (pcbs s' p) = resources (pcbs s p)
        \<and> readyq s' = readyq s \<and> terminatedq s' = terminatedq s"
    by (auto simp: queues_only_def)
qed

text \<open>
  In \<open>one_holding\<close> process 2 asks for the free \<open>S\<close> and gets it; in \<open>release_nothing\<close>
  process 1 asks for \<open>R\<close>, which is taken, and joins process 2 in the waiting queue.
\<close>

lemma request_resource_result_example:
  "(\<exists>x\<in>set (available_resources one_holding). name x = ''S'' \<and> available x = YES)
   \<and> \<not> malloc_fails one_holding
   \<and> (\<exists>s'. request_resource 2 (req ''S'') one_holding = Returns s'
        \<and> available_resources s' = [\<lparr>name = ''R'', available = NO\<rparr>, \<lparr>name = ''S'', available = NO\<rparr>]
        \<and> resources (pcbs s' 2) = [\<lparr>name = ''S'', available = NO\<rparr>]
        \<and> logfile s' = [Log_request_acquired ''P2'' ''S''])
   \<and> \<not> (\<exists>x\<in>set (available_resources release_nothing). name x = ''R'' \<and> available x = YES)
   \<and> queue_is release_nothing (waitingq release_nothing) [2] \<and> 1 \<notin> set [2::nat]
   \<and> (\<exists>s'. request_resource 1 (req ''R'') release_nothing = Returns s'
        \<and> state (pcbs s' 1) = WAITING
        \<and> queue_is s' (waitingq s') [2, 1]
        \<and> logfile s' = [Log_request_waiting ''P1'' ''R''])"
proof -
  have rn: "resource_name (req ''S'') = ''S''" "resource_name (req ''R'') = ''R''"
    by (simp_all add: req_def)
  have a: "\<exists>x\<in>set (available_resources one_holding). name x = ''S'' \<and> available x = YES"
    "\<not> malloc_fails one_holding"
    by (simp_all add: example_defs)
  have b: "\<not> (\<exists>x\<in>set (available_resources release_nothing). name x = ''R'' \<and> available x = YES)"
    "queue_is release_nothing (waitingq release_nothing) [2]" "1 \<notin> set [2::nat]"
    by (simp_all add: example_defs queue_is_def)
  have l: "available_resources one_holding = [\<lparr>name = ''R'', available = NO\<rparr>, \<lparr>name = ''S'', available = YES\<rparr>]"
    "resources (pcbs one_holding 2) = []" "logfile one_holding = []" "proc_name (pcbs one_holding 2) = ''P2''"
    "logfile release_nothing = []" "proc_name (pcbs release_nothing 1) = ''P1''"
    by (simp_all add: example_defs)
  from request_resource_result [of one_holding "req ''S''" 2 "[]", unfolded rn] a
  obtain s' xs x ys where 1: "request_resource 2 (req ''S'') one_holding = Returns s'"
    "available_resources one_holding = xs @ x # ys" "name x = ''S''" "available x = YES"
    "available_resources s' = xs @ x\<lparr>available := NO\<rparr> # ys"
    "resources (pcbs s' 2) = \<lparr>name = ''S'', available = NO\<rparr> # resources (pcbs one_holding 2)"
    "logfile s' = logfile one_holding @ [Log_request_acquired (proc_name (pcbs one_holding 2)) ''S'']"
    by blast
  from 1(2-4) l(1) have "xs = [\<lparr>name = ''R'', available = NO\<rparr>] \<and> x = \<lparr>name = ''S'', available = YES\<rparr> \<and> ys = []"
    by (cases xs; cases "tl xs"; cases ys) auto
  with 1 l have A: "\<exists>s'. request_resource 2 (req ''S'') one_holding = Returns s'
        \<and> available_resources s' = [\<lparr>name = ''R'', available = NO\<rparr>, \<lparr>name = ''S'', available = NO\<rparr>]
        \<and> resources (pcbs s' 2) = [\<lparr>name = ''S'', available = NO\<rparr>]
        \<and> logfile s' = [Log_request_acquired ''P2'' ''S'']"
    by auto
  from request_resource_result [of release_nothing "req ''R''" 1 "[2]", unfolded rn] b l
  have B: "\<exists>s'. request_resource 1 (req ''R'') release_nothing = Returns s'
        \<and> state (pcbs s' 1) = WAITING
        \<and> queue_is s' (waitingq s') [2, 1]
        \<and> logfile s' = [Log_request_waiting ''P1'' ''R'']"
    by auto
  from a b A B show ?thesis by blast
qed

subsection \<open>A release error on a well-formed waiting queue\<close>

text \<open>
  A process \<open>p\<close> executes a release of \<open>r\<close> and has no handle named \<open>r\<close>. Then
  \<^verbatim>\<open>release_resource\<close> returns, and all it does is write the line ``release error'': the
  resource list, the handles of \<open>p\<close>, the queues and all blocks are as before; no process
  is woken up. \<^verbatim>\<open>execute_instr\<close> then looks through the waiting queue for processes whose
  resource has become available; in a well-formed waiting queue without such a process it
  changes nothing either, and both schedulers go on with the next instruction of \<open>p\<close>
  after polling for arrivals.
\<close>

lemma release_error_continues:
  assumes nh: "\<forall>h\<in>set (resources (pcbs s p)). name h \<noteq> resource_name i"
    and rel: "instr_type i = REL_OP"
  shows "release_resource n p i s =
           Returns (emit (Log_release_error (proc_name (pcbs s p)) (resource_name i)) s)
    \<and> (queue_is s (waitingq s) ws \<and> (\<forall>w\<in>set ws. \<not> canMoveToReady w s) \<and> length ws < n \<longrightarrow>
         execute_instr n p (Some i) s =
           Returns (emit (Log_release_error (proc_name (pcbs s p)) (resource_name i)) s)
         \<and> (next_instruction (pcbs s p) = i # is \<and> state (pcbs s p) = RUNNING
              \<and> (case new_pcbs s of Some a # as \<Rightarrow> a \<noteq> p | _ \<Rightarrow> True) \<longrightarrow>
             schedule_fcfs_run (Suc n) p s =
               obind (check_for_new_arrivals
                        (emit (Log_release_error (proc_name (pcbs s p)) (resource_name i)) s))
                 (\<lambda>(new_arrival, s'). schedule_fcfs_run n p (set_next_instruction p is s'))
             \<and> run_current n p s =
               obind (check_for_new_arrivals
                        (emit (Log_release_error (proc_name (pcbs s p)) (resource_name i)) s))
                 (\<lambda>(new_arrival, s').
                    obind (if new_arrival then preempt n (Some p) (set_next_instruction p is s')
                           else Returns (Some p, set_next_instruction p is s'))
                      (\<lambda>(current_process, s''). preempt n current_process s''))))"
proof (intro conjI impI)
  show "release_resource n p i s =
           Returns (emit (Log_release_error (proc_name (pcbs s p)) (resource_name i)) s)"
    by (rule release_resource_error[OF nh])
next
  assume a: "queue_is s (waitingq s) ws \<and> (\<forall>w\<in>set ws. \<not> canMoveToReady w s) \<and> length ws < n"
  then show e: "execute_instr n p (Some i) s =
           Returns (emit (Log_release_error (proc_name (pcbs s p)) (resource_name i)) s)"
    using execute_instr_release_error[OF nh rel] by blast
  assume b: "next_instruction (pcbs s p) = i # is \<and> state (pcbs s p) = RUNNING
              \<and> (case new_pcbs s of Some a # as \<Rightarrow> a \<noteq> p | _ \<Rightarrow> True)"
  let ?s1 = "emit (Log_release_error (proc_name (pcbs s p)) (resource_name i)) s"
  from b have o: "case new_pcbs ?s1 of Some a # as \<Rightarrow> a \<noteq> p | _ \<Rightarrow> True" by simp
  have after: "state (pcbs s2 p) = RUNNING \<and> next_instruction (pcbs s2 p) = i # is"
    if "check_for_new_arrivals ?s1 = Returns (bb, s2)" for bb s2
    using check_for_new_arrivals_other[OF that o] b by simp
  have "obind (check_for_new_arrivals ?s1) (\<lambda>(new_arrival, s2).
            if state (pcbs s2 p) = WAITING
            then (case next_instruction (pcbs s2 p) of
                    [] \<Rightarrow> Fault Null_dereference
                  | j # js \<Rightarrow> move_proc_to_wq (Some p) (resource_name j) s2)
            else (case next_instruction (pcbs s2 p) of
                    [] \<Rightarrow> Fault Null_dereference
                  | j # js \<Rightarrow> schedule_fcfs_run n p (set_next_instruction p js s2)))
       = obind (check_for_new_arrivals ?s1)
           (\<lambda>(new_arrival, s'). schedule_fcfs_run n p (set_next_instruction p is s'))"
  proof (rule obind_cong_Returns)
    fix x assume x: "check_for_new_arrivals ?s1 = Returns x"
    obtain bb s2 where xx: "x = (bb, s2)" by (cases x)
    from after[OF x[unfolded xx]]
    show "(case x of (new_arrival, s2) \<Rightarrow>
            if state (pcbs s2 p) = WAITING
            then (case next_instruction (pcbs s2 p) of
                    [] \<Rightarrow> Fault Null_dereference
                  | j # js \<Rightarrow> move_proc_to_wq (Some p) (resource_name j) s2)
            else (case next_instruction (pcbs s2 p) of
                    [] \<Rightarrow> Fault Null_dereference
                  | j # js \<Rightarrow> schedule_fcfs_run n p (set_next_instruction p js s2)))
          = (case x of (new_arrival, s') \<Rightarrow> schedule_fcfs_run n p (set_next_instruction p is s'))"
      by (simp add: xx)
  qed
  with b e show "schedule_fcfs_run (Suc n) p s =
               obind (check_for_new_arrivals ?s1)
                 (\<lambda>(new_arrival, s'). schedule_fcfs_run n p (set_next_instruction p is s'))"
    by simp
  have "obind (check_for_new_arrivals ?s1) (\<lambda>(new_arrival, s2).
     obind (case next_instruction (pcbs s2 p) of
              i # is \<Rightarrow>
                Returns (Some p, if state (pcbs s2 p) = RUNNING
                                 then set_next_instruction p is s2 else s2)
            | [] \<Rightarrow>
                obind (move_proc_to_tq (Some p) (set_state p TERMINATED s2))
                  (\<lambda>s3. Returns (None, s3))) (\<lambda>(current_process, s3).
     obind (if new_arrival then preempt n current_process s3
            else Returns (current_process, s3)) (\<lambda>(current_process, s4).
       preempt n current_process s4)))
     = obind (check_for_new_arrivals ?s1)
                 (\<lambda>(new_arrival, s').
                    obind (if new_arrival then preempt n (Some p) (set_next_instruction p is s')
                           else Returns (Some p, set_next_instruction p is s'))
                      (\<lambda>(current_process, s''). preempt n current_process s''))"
  proof (rule obind_cong_Returns)
    fix x assume x: "check_for_new_arrivals ?s1 = Returns x"
    obtain bb s2 where xx: "x = (bb, s2)" by (cases x)
    from after[OF x[unfolded xx]]
    show "(case x of (new_arrival, s2) \<Rightarrow>
     obind (case next_instruction (pcbs s2 p) of
              i # is \<Rightarrow>
                Returns (Some p, if state (pcbs s2 p) = RUNNING
                                 then set_next_instruction p is s2 else s2)
            | [] \<Rightarrow>
                obind (move_proc_to_tq (Some p) (set_state p TERMINATED s2))
                  (\<lambda>s3. Returns (None, s3))) (\<lambda>(current_process, s3).
     obind (if new_arrival then preempt n current_process s3
            else Returns (current_process, s3)) (\<lambda>(current_process, s4).
       preempt n current_process s4)))
      = (case x of (new_arrival, s') \<Rightarrow>
                    obind (if new_arrival then preempt n (Some p) (set_next_instruction p is s')
                           else Returns (Some p, set_next_instruction p is s'))
                      (\<lambda>(current_process, s''). preempt n current_process s''))"
      by (simp add: xx)
  qed
  with b e show "run_current n p s =
               obind (check_for_new_arrivals ?s1)
                 (\<lambda>(new_arrival, s').
                    obind (if new_arrival then preempt n (Some p) (set_next_instruction p is s')
                           else Returns (Some p, set_next_instruction p is s'))
                      (\<lambda>(current_process, s''). preempt n current_process s''))"
    by (simp add: run_current_def)
qed

text \<open>
  In \<open>release_nothing\<close> process 1 releases \<open>S\<close>, which it does not hold, while process 2
  waits for the taken \<open>R\<close>: the instruction writes the error and nothing else, and the run of
  process 1 goes on with its release of \<open>R\<close>.
\<close>

lemma release_error_continues_example:
  "map name (resources (pcbs release_nothing 1)) = [''R'']
   \<and> instr_type (rel ''S'') = REL_OP
   \<and> queue_is release_nothing (waitingq release_nothing) [2]
   \<and> \<not> canMoveToReady 2 release_nothing \<and> length [2::nat] < 3
   \<and> next_instruction (pcbs release_nothing 1) = rel ''S'' # [rel ''R'']
   \<and> state (pcbs release_nothing 1) = RUNNING \<and> new_pcbs release_nothing = []
   \<and> execute_instr 3 1 (Some (rel ''S'')) release_nothing =
        Returns (emit (Log_release_error ''P1'' ''S'') release_nothing)
   \<and> schedule_fcfs_run 4 1 release_nothing =
        schedule_fcfs_run 3 1
          (set_next_instruction 1 [rel ''R''] (emit (Log_release_error ''P1'' ''S'') release_nothing))"
proof -
  have h: "\<forall>h\<in>set (resources (pcbs release_nothing 1)). name h \<noteq> resource_name (rel ''S'')"
    "instr_type (rel ''S'') = REL_OP"
    by (simp_all add: example_defs)
  have q: "queue_is release_nothing (waitingq release_nothing) [2]"
    "\<forall>w\<in>set [2]. \<not> canMoveToReady w release_nothing" "length [2::nat] < 3"
    by (simp_all add: example_defs queue_is_def canMoveToReady_def is_resource_available_def)
  have c: "next_instruction (pcbs release_nothing 1) = rel ''S'' # [rel ''R'']"
    "state (pcbs release_nothing 1) = RUNNING" "new_pcbs release_nothing = []"
    "proc_name (pcbs release_nothing 1) = ''P1''" "resource_name (rel ''S'') = ''S''"
    by (simp_all add: example_defs)
  have n: "check_for_new_arrivals (emit (Log_release_error ''P1'' ''S'') release_nothing)
      = Returns (False, emit (Log_release_error ''P1'' ''S'') release_nothing)"
    using c(3) by (simp add: check_for_new_arrivals_def get_new_pcb_def)
  have four: "(4::nat) = Suc 3" by simp
  from release_error_continues [OF h, of 3 "[2]" "[rel ''R'']"] q c n
  have "execute_instr 3 1 (Some (rel ''S'')) release_nothing =
        Returns (emit (Log_release_error ''P1'' ''S'') release_nothing)"
    and "schedule_fcfs_run 4 1 release_nothing =
        schedule_fcfs_run 3 1
          (set_next_instruction 1 [rel ''R''] (emit (Log_release_error ''P1'' ''S'') release_nothing))"
    unfolding four by simp_all
  moreover have "map name (resources (pcbs release_nothing 1)) = [''R'']"
    by (simp add: example_defs)
  ultimately show ?thesis using h q c by simp
qed

subsection \<open>The preemption test on a well-formed ready queue\<close>

text \<open>
  \<^verbatim>\<open>higher_priority(a, b)\<close> holds iff \<open>a > b\<close>. On a well-formed ready queue
  whose priorities are above the sentinel \<^verbatim>\<open>INT_MIN\<close>, \<^verbatim>\<open>find_highest_priority_proc\<close>
  returns the first block of maximal priority: all blocks in front of it have a strictly
  lower priority. Every scheduling decision of \<^verbatim>\<open>schedule_pri_w_pre\<close> is the preemption
  test (the selection made without a current process is the same test). After the test the
  ready queue is well-formed again and the priority of the current process is at least that
  of every ready process; when the test changes the current process, the new one is that
  first maximal block, its priority is strictly greater than that of the old one, and the
  old one is at the tail of the ready queue; a ready process whose priority only equals that
  of the current process leaves everything as it is.
\<close>

lemma preempt_result:
  assumes q: "queue_is s (readyq s) rs"
    and pr: "\<forall>r\<in>set rs. INT_MIN < priority (pcbs s r)"
    and n: "length rs + 1 < n"
    and nc: "\<forall>c. current_process = Some c \<longrightarrow> c \<notin> set rs"
  shows "higher_priority pri1 pri2 = (pri2 < pri1)
    \<and> (rs \<noteq> [] \<longrightarrow> (\<exists>xs h ys. rs = xs @ h # ys
           \<and> find_highest_priority_proc n s = Returns (Some h)
           \<and> (\<forall>x\<in>set xs. priority (pcbs s x) < priority (pcbs s h))
           \<and> (\<forall>y\<in>set ys. priority (pcbs s y) \<le> priority (pcbs s h))))
    \<and> select_process n None s = preempt n None s
    \<and> (\<exists>cur' s' rs'. preempt n current_process s = Returns (cur', s')
      \<and> queue_is s' (readyq s') rs'
      \<and> (\<forall>a. priority (pcbs s' a) = priority (pcbs s a))
      \<and> (\<forall>c'. cur' = Some c' \<longrightarrow> (\<forall>r\<in>set rs'. priority (pcbs s' r) \<le> priority (pcbs s' c')))
      \<and> (cur' = None \<longrightarrow> current_process = None \<and> rs = [])
      \<and> (cur' = current_process \<longrightarrow> s' = s \<and> rs' = rs)
      \<and> (cur' \<noteq> current_process \<longrightarrow>
           (\<exists>xs h ys. rs = xs @ h # ys \<and> cur' = Some h
              \<and> (\<forall>x\<in>set xs. priority (pcbs s x) < priority (pcbs s h))
              \<and> (\<forall>y\<in>set ys. priority (pcbs s y) \<le> priority (pcbs s h))
              \<and> rs' = xs @ ys @ (case current_process of Some c \<Rightarrow> [c] | None \<Rightarrow> [])
              \<and> state (pcbs s' h) = RUNNING
              \<and> (\<forall>c. current_process = Some c \<longrightarrow>
                    state (pcbs s' c) = READY \<and> priority (pcbs s c) < priority (pcbs s h)))))
    \<and> (\<forall>c. current_process = Some c \<and> (\<forall>r\<in>set rs. priority (pcbs s r) \<le> priority (pcbs s c))
          \<longrightarrow> preempt n current_process s = Returns (current_process, s))"
proof (intro conjI)
  show "higher_priority pri1 pri2 = (pri2 < pri1)" by (simp add: higher_priority_def)
  show "rs \<noteq> [] \<longrightarrow> (\<exists>xs h ys. rs = xs @ h # ys
           \<and> find_highest_priority_proc n s = Returns (Some h)
           \<and> (\<forall>x\<in>set xs. priority (pcbs s x) < priority (pcbs s h))
           \<and> (\<forall>y\<in>set ys. priority (pcbs s y) \<le> priority (pcbs s h)))"
    using n by (intro find_highest_priority_proc_first_max(2)[OF q _ pr]) simp
  show "select_process n None s = preempt n None s" by (rule select_process_preempt)
  note d = preempt_decision[OF q pr n nc]
  show "\<exists>cur' s' rs'. preempt n current_process s = Returns (cur', s')
      \<and> queue_is s' (readyq s') rs'
      \<and> (\<forall>a. priority (pcbs s' a) = priority (pcbs s a))
      \<and> (\<forall>c'. cur' = Some c' \<longrightarrow> (\<forall>r\<in>set rs'. priority (pcbs s' r) \<le> priority (pcbs s' c')))
      \<and> (cur' = None \<longrightarrow> current_process = None \<and> rs = [])
      \<and> (cur' = current_process \<longrightarrow> s' = s \<and> rs' = rs)
      \<and> (cur' \<noteq> current_process \<longrightarrow>
           (\<exists>xs h ys. rs = xs @ h # ys \<and> cur' = Some h
              \<and> (\<forall>x\<in>set xs. priority (pcbs s x) < priority (pcbs s h))
              \<and> (\<forall>y\<in>set ys. priority (pcbs s y) \<le> priority (pcbs s h))
              \<and> rs' = xs @ ys @ (case current_process of Some c \<Rightarrow> [c] | None \<Rightarrow> [])
              \<and> state (pcbs s' h) = RUNNING
              \<and> (\<forall>c. current_process = Some c \<longrightarrow>
                    state (pcbs s' c) = READY \<and> priority (pcbs s c) < priority (pcbs s h))))"
    by (rule d)
  show "\<forall>c. current_process = Some c \<and> (\<forall>r\<in>set rs. priority (pcbs s r) \<le> priority (pcbs s c))
          \<longrightarrow> preempt n current_process s = Returns (current_process, s)"
  proof (intro allI impI)
    fix c assume a: "current_process = Some c \<and> (\<forall>r\<in>set rs. priority (pcbs s r) \<le> priority (pcbs s c))"
    from d obtain cur' s' rs' where r: "preempt n current_process s = Returns (cur', s')"
      and same: "cur' = current_process \<longrightarrow> s' = s \<and> rs' = rs"
      and diff: "cur' \<noteq> current_process \<longrightarrow>
           (\<exists>xs h ys. rs = xs @ h # ys \<and> cur' = Some h
              \<and> (\<forall>c. current_process = Some c \<longrightarrow>
                    state (pcbs s' c) = READY \<and> priority (pcbs s c) < priority (pcbs s h)))"
      by blast
    have "cur' = current_process"
    proof (rule ccontr)
      assume "cur' \<noteq> current_process"
      with diff a obtain xs h ys where "rs = xs @ h # ys" "priority (pcbs s c) < priority (pcbs s h)"
        by blast
      with a show False by auto
    qed
    with r same show "preempt n current_process s = Returns (current_process, s)" by simp
  qed
qed

text \<open>
  In \<open>ready_two\<close> the search finds process 2, the first of the two processes of priority 5.
  It preempts process 1 (priority 1), which goes to the tail of the ready queue; it does not
  preempt process 4, whose priority is 5 as well.
\<close>

lemma preempt_result_example:
  "queue_is ready_two (readyq ready_two) [2, 3]
   \<and> find_highest_priority_proc 5 ready_two = Returns (Some 2)
   \<and> preempt 5 (Some 4) ready_two = Returns (Some 4, ready_two)
   \<and> (case preempt 5 (Some 1) ready_two of
        Returns (cur', s') \<Rightarrow> cur' = Some 2 \<and> queue_is s' (readyq s') [3, 1]
          \<and> state (pcbs s' 2) = RUNNING \<and> state (pcbs s' 1) = READY
      | _ \<Rightarrow> False)"
proof -
  have q: "queue_is ready_two (readyq ready_two) [2, 3]"
    by (simp add: example_defs queue_is_def)
  have pr: "\<forall>r\<in>set [2, 3]. INT_MIN < priority (pcbs ready_two r)"
    by (simp add: example_defs INT_MIN_def)
  have n: "length [2::nat, 3] + 1 < 5" by simp
  have nc: "\<forall>c. Some 4 = Some c \<longrightarrow> c \<notin> set [2::nat, 3]" by simp
  have le: "\<forall>r\<in>set [2, 3]. priority (pcbs ready_two r) \<le> priority (pcbs ready_two 4)"
    by (simp add: example_defs)
  from preempt_result [OF q pr n nc] le
  have a: "preempt 5 (Some 4) ready_two = Returns (Some 4, ready_two)" by blast
  have b: "find_highest_priority_proc 5 ready_two = Returns (Some 2)"
    by (simp add: example_defs model_defs eval_nat_numeral)
  have c: "case preempt 5 (Some 1) ready_two of
        Returns (cur', s') \<Rightarrow> cur' = Some 2 \<and> queue_is s' (readyq s') [3, 1]
          \<and> state (pcbs s' 2) = RUNNING \<and> state (pcbs s' 1) = READY
      | _ \<Rightarrow> False"
    by (simp add: example_defs model_defs eval_nat_numeral queue_is_def)
  from q a b c show ?thesis by blast
qed

subsection \<open>Running the model\<close>

text \<open>
  A walk of \<^verbatim>\<open>move_waiting_to_ready_based_on_resources\<close> that has reached a block which
  points to itself and cannot be moved never ends.
\<close>

lemma move_waiting_to_ready_loop_self:
  assumes "pcb_next (pcbs s w) = Some w" "\<not> canMoveToReady w s"
  shows "move_waiting_to_ready_loop n (Next_of w) (Some w) s = Out_of_fuel"
  using assms by (induction n) simp_all

lemma move_waiting_to_ready_self:
  assumes "first (waitingq s) = Some w" "pcb_next (pcbs s w) = Some w" "\<not> canMoveToReady w s"
  shows "move_waiting_to_ready_based_on_resources n s = Out_of_fuel"
proof (cases n)
  case 0 then show ?thesis by (simp add: move_waiting_to_ready_based_on_resources_def)
next
  case (Suc m)
  with assms move_waiting_to_ready_loop_self[OF assms(2,3), of m] show ?thesis
    by (simp add: move_waiting_to_ready_based_on_resources_def)
qed

lemma execute_instr_release_hangs:
  assumes nh: "\<forall>h\<in>set (resources (pcbs s p)). name h \<noteq> resource_name i"
    and rel: "instr_type i = REL_OP"
    and w: "first (waitingq s) = Some w" "pcb_next (pcbs s w) = Some w" "\<not> canMoveToReady w s"
  shows "execute_instr n p (Some i) s = Out_of_fuel"
proof -
  let ?s1 = "emit (Log_release_error (proc_name (pcbs s p)) (resource_name i)) s"
  have "move_waiting_to_ready_based_on_resources n ?s1 = Out_of_fuel"
    using w by (intro move_waiting_to_ready_self[of _ w]) simp_all
  with rel release_resource_error[OF nh] show ?thesis by (simp add: execute_instr_def)
qed

lemma schedule_fcfs_run_release_hangs:
  assumes nh: "\<forall>h\<in>set (resources (pcbs s p)). name h \<noteq> resource_name i"
    and rel: "instr_type i = REL_OP" and ni: "next_instruction (pcbs s p) = i # rest"
    and w: "first (waitingq s) = Some w" "pcb_next (pcbs s w) = Some w" "\<not> canMoveToReady w s"
  shows "schedule_fcfs_run n p s = Out_of_fuel"
proof (cases n)
  case 0 then show ?thesis by simp
next
  case (Suc m)
  with ni execute_instr_release_hangs[OF nh rel w, of m] show ?thesis by simp
qed

lemma block_then_release_first_turn:
  "schedule_fcfs (Suc (Suc n)) block_then_release = schedule_fcfs (Suc n) blocked_twice"
  by (simp add: example_defs model_defs fun_upd_twist)

lemma blocked_twice_hangs: "schedule_fcfs n blocked_twice = Out_of_fuel"
proof (cases n)
  case 0 then show ?thesis by simp
next
  case (Suc m)
  define s1 where "s1 = snd (dequeue_pcb (Some Readyq) blocked_twice)"
  have f: "first (readyq blocked_twice) \<noteq> None"
    by (simp add: example_defs)
  have d: "dequeue_pcb (Some Readyq) blocked_twice = (Some 2, s1)"
    by (simp add: s1_def example_defs dequeue_pcb_def Let_def get_queue_def)
  have "schedule_fcfs_run m 2 (set_state 2 RUNNING s1) = Out_of_fuel"
    by (rule schedule_fcfs_run_release_hangs[where i = "rel ''Y''" and rest = "[]" and w = 1])
      (simp_all add: s1_def example_defs dequeue_pcb_def Let_def get_queue_def
        set_queue_def canMoveToReady_def is_resource_available_def)
  with d f Suc show ?thesis by simp
qed

text \<open>
  On the workload \<open>wake_then_block\<close> the third turn of \<^verbatim>\<open>schedule_fcfs\<close> stops the
  program.
\<close>

lemma wake_then_block_two_turns:
  "schedule_fcfs (Suc (Suc (Suc (Suc (Suc (Suc (Suc n))))))) wake_then_block
     = schedule_fcfs (Suc (Suc (Suc (Suc (Suc n))))) woken_once"
  by (simp add: example_defs model_defs fun_upd_twist)

lemma wake_then_block_faults:
  "schedule_fcfs (Suc (Suc (Suc (Suc (Suc (Suc (Suc n))))))) wake_then_block
     = Fault Null_dereference"
  by (simp add: example_defs model_defs fun_upd_twist)

text \<open>
  The search of \<^verbatim>\<open>find_highest_priority_proc\<close> never ends once it has reached a block
  that points to itself.
\<close>

lemma find_highest_priority_proc_loop_self:
  "pcb_next (pcbs s v) = Some v \<Longrightarrow>
   find_highest_priority_proc_loop n (Some v) h p s = Out_of_fuel"
  by (induction n arbitrary: h p) simp_all

lemma preempted_while_blocked_five_passes:
  "schedule_pri_w_pre_loop (Suc (Suc (Suc (Suc (Suc (Suc (Suc (Suc (Suc (Suc n))))))))))
       None preempted_while_blocked
     = schedule_pri_w_pre_loop (Suc (Suc (Suc (Suc (Suc n))))) None holder_ready"
  by (simp add: example_defs model_defs fun_upd_twist)

lemma preempted_while_blocked_big:
  "schedule_pri_w_pre_loop (Suc (Suc (Suc (Suc (Suc (Suc (Suc (Suc (Suc (Suc n))))))))))
       None preempted_while_blocked
     = Out_of_fuel"
  by (simp add: example_defs model_defs fun_upd_twist find_highest_priority_proc_loop_self)

lemma preempted_while_blocked_small:
  assumes "n < 10"
  shows "schedule_pri_w_pre_loop n None preempted_while_blocked = Out_of_fuel"
proof -
  from assms consider "n = 0" | "n = 1" | "n = 2" | "n = 3" | "n = 4" | "n = 5" | "n = 6"
    | "n = 7" | "n = 8" | "n = 9" by atomize_elim arith
  then show ?thesis
    by cases (simp_all add: example_defs model_defs fun_upd_twist eval_nat_numeral)
qed

section \<open>The claims\<close>

subsection \<open>C9: round robin is first come, first served\<close>

text \<open>
  Claim C9. Scheduling with mode \<^verbatim>\<open>RR\<close> is scheduling with mode \<^verbatim>\<open>FCFS\<close>: for every
  manager state and every time quantum both calls of \<^verbatim>\<open>schedule_processes\<close> have the same
  outcome (the same final state, with the same log, or the same failure to return), and this
  outcome is that of \<^verbatim>\<open>schedule_fcfs\<close>; the quantum is not used.
\<close>

theorem rr_is_fcfs:
  "schedule_processes RR quantum n s = schedule_processes FCFS quantum' n s
   \<and> schedule_processes RR quantum n s = schedule_fcfs n s"
  by (simp add: schedule_processes_def RR_def FCFS_def PRIOR_def)

theorem rr_is_fcfs_witness:
  "schedule_processes RR 4 5 one_waiting = schedule_processes FCFS 1 5 one_waiting
   \<and> schedule_processes RR 4 5 one_waiting = schedule_fcfs 5 one_waiting"
  using rr_is_fcfs [of 4 5 one_waiting 1] by blast

subsection \<open>C10: the queue operations\<close>

text \<open>
  Claim C10, as the code has it. Dequeuing from an absent or empty queue returns \<^verbatim>\<open>NULL\<close>
  and leaves the state as it is; enqueuing with an absent process or queue changes nothing;
  a dequeue from a queue with a first block returns that block with its link cleared, and a
  well-formed queue stays well-formed without its head. Enqueuing a block that is not yet in
  a well-formed queue returns, puts the block at the tail with a cleared link and keeps the
  queue well-formed. (The claim says this of every enqueue; \<open>enqueue_pcb_twice_counterexample\<close>
  below shows what happens to a block that is already the last of the queue.)
\<close>

theorem queue_operations:
  "dequeue_pcb None s = (None, s)
   \<and> (first (get_queue q s) = None \<longrightarrow> dequeue_pcb (Some q) s = (None, s))
   \<and> enqueue_pcb None queue s = Returns s
   \<and> enqueue_pcb pcb None s = Returns s
   \<and> (first (get_queue q s) = Some h \<longrightarrow>
        fst (dequeue_pcb (Some q) s) = Some h
        \<and> pcb_next (pcbs (snd (dequeue_pcb (Some q) s)) h) = None)
   \<and> (queue_is s (get_queue q s) (h # as) \<longrightarrow>
        queue_is (snd (dequeue_pcb (Some q) s)) (get_queue q (snd (dequeue_pcb (Some q) s))) as)
   \<and> (queue_is s (get_queue q s) as \<and> p \<notin> set as \<longrightarrow>
        (\<exists>s'. enqueue_pcb (Some p) (Some q) s = Returns s'
           \<and> pcb_next (pcbs s' p) = None
           \<and> queue_is s' (get_queue q s') (as @ [p])))"
proof (intro conjI impI)
  show "dequeue_pcb None s = (None, s)" by (simp add: dequeue_pcb_def)
  show "enqueue_pcb None queue s = Returns s" by (simp add: enqueue_pcb_def)
  show "enqueue_pcb pcb None s = Returns s" by (simp add: enqueue_pcb_def split: option.splits)
next
  assume "first (get_queue q s) = None"
  then show "dequeue_pcb (Some q) s = (None, s)" by (simp add: dequeue_pcb_def)
next
  assume "first (get_queue q s) = Some h"
  then show "fst (dequeue_pcb (Some q) s) = Some h"
    and "pcb_next (pcbs (snd (dequeue_pcb (Some q) s)) h) = None"
    by (simp_all add: dequeue_pcb_def Let_def)
next
  assume "queue_is s (get_queue q s) (h # as)"
  then show "queue_is (snd (dequeue_pcb (Some q) s)) (get_queue q (snd (dequeue_pcb (Some q) s))) as"
    by (rule dequeue_pcb_queue_is)
next
  assume a: "queue_is s (get_queue q s) as \<and> p \<notin> set as"
  then have q: "queue_is s (get_queue q s) as" and p: "p \<notin> set as" by auto
  let ?s' = "if as = [] then set_queue q \<lparr>first = Some p, last_q = Some p\<rparr> (set_next p None s)
                    else set_queue q ((get_queue q s)\<lparr>last_q := Some p\<rparr>)
                           (set_next (last as) (Some p) (set_next p None s))"
  have r: "enqueue_pcb (Some p) (Some q) s = Returns ?s'" by (rule enqueue_pcb_queue_is[OF q p])
  have "queue_is ?s' (get_queue q ?s') (as @ [p])" by (rule enqueue_pcb_result_queue[OF q p r])
  moreover have "pcb_next (pcbs ?s' p) = None" using p by (cases "as = []") auto
  ultimately show "\<exists>s'. enqueue_pcb (Some p) (Some q) s = Returns s'
           \<and> pcb_next (pcbs s' p) = None \<and> queue_is s' (get_queue q s') (as @ [p])"
    using r by blast
qed

theorem queue_operations_witness:
  "first (get_queue Readyq one_waiting) = None
   \<and> dequeue_pcb (Some Readyq) one_waiting = (None, one_waiting)
   \<and> first (get_queue Waitingq one_waiting) = Some 1
   \<and> fst (dequeue_pcb (Some Waitingq) one_waiting) = Some 1
   \<and> queue_is one_waiting (get_queue Waitingq one_waiting) [1] \<and> 2 \<notin> set [1::nat]
   \<and> (\<exists>s'. enqueue_pcb (Some 2) (Some Waitingq) one_waiting = Returns s'
           \<and> pcb_next (pcbs s' 2) = None
           \<and> queue_is s' (get_queue Waitingq s') [1, 2])"
proof -
  have a: "first (get_queue Readyq one_waiting) = None" by (simp add: example_defs)
  have b: "first (get_queue Waitingq one_waiting) = Some 1" by (simp add: example_defs)
  have c: "queue_is one_waiting (get_queue Waitingq one_waiting) [1]"
    by (simp add: example_defs queue_is_def)
  have d: "2 \<notin> set [1::nat]" by simp
  show ?thesis
    using queue_operations [of one_waiting Readyq None None 1 "[]" 2]
      queue_operations [of one_waiting Waitingq None None 1 "[1]" 2] a b c d
    by simp
qed

text \<open>
  In \<open>one_waiting\<close> the waiting queue is well-formed and holds block 1 only. Enqueuing
  block 1 once more returns, and block 1 then points to itself: its link is not cleared.
\<close>

theorem enqueue_pcb_twice_counterexample:
  "queue_is one_waiting (get_queue Waitingq one_waiting) [1]
   \<and> (case enqueue_pcb (Some 1) (Some Waitingq) one_waiting of
        Returns s' \<Rightarrow> pcb_next (pcbs s' 1) = Some 1 | _ \<Rightarrow> False)"
  by (simp add: example_defs queue_is_def enqueue_pcb_def Let_def set_queue_def)

subsection \<open>C3: mutual exclusion\<close>

text \<open>
  Claim C3. In a state with mutual exclusion (resource names unique in the resource list, as
  the data model of the spec has them) no resource is held by two processes. Mutual
  exclusion is kept by every executed instruction and by a whole run of either scheduler, so
  it holds in every state reached from a loaded workload, where no process holds anything.
  A request gives its process a handle only for a resource that was available, and marks it
  taken; and a resource that was not available becomes available by an instruction only if
  that instruction is a release of this resource by a process that held it.
\<close>

theorem mutual_exclusion_kept:
  assumes "mutual_exclusion s"
  shows "(holds s p r \<and> holds s q r \<longrightarrow> p = q)
    \<and> (\<forall>s'. execute_instr n c instr s = Returns s' \<longrightarrow> mutual_exclusion s')
    \<and> (\<forall>s'. schedule_processes sched_type quantum n s = Returns s' \<longrightarrow> mutual_exclusion s')
    \<and> (\<forall>s'. request_resource c i s = Returns s' \<and> \<not> holds s c (resource_name i)
            \<and> holds s' c (resource_name i)
          \<longrightarrow> is_resource_available (resource_name i) s
              \<and> \<not> is_resource_available (resource_name i) s')
    \<and> (\<forall>s'. execute_instr n c instr s = Returns s' \<and> \<not> is_resource_available r s
            \<and> is_resource_available r s'
          \<longrightarrow> (\<exists>j. instr = Some j \<and> instr_type j = REL_OP \<and> resource_name j = r \<and> holds s c r))"
proof (intro conjI allI impI)
  assume "holds s p r \<and> holds s q r"
  with assms show "p = q" unfolding mutual_exclusion_def by blast
next
  fix s' assume "execute_instr n c instr s = Returns s'"
  then show "mutual_exclusion s'" by (rule execute_instr_mutual_exclusion[OF assms])
next
  fix s' assume "schedule_processes sched_type quantum n s = Returns s'"
  then show "mutual_exclusion s'" using assms by (rule schedule_processes_mutual_exclusion)
next
  fix s' assume a: "request_resource c i s = Returns s' \<and> \<not> holds s c (resource_name i)
            \<and> holds s' c (resource_name i)"
  with request_resource_acquires[OF assms, of c i s']
  show "is_resource_available (resource_name i) s" "\<not> is_resource_available (resource_name i) s'"
    by auto
next
  fix s' assume "execute_instr n c instr s = Returns s' \<and> \<not> is_resource_available r s
            \<and> is_resource_available r s'"
  with execute_instr_makes_available[OF assms, of n c instr s' r]
  show "\<exists>j. instr = Some j \<and> instr_type j = REL_OP \<and> resource_name j = r \<and> holds s c r"
    by auto
qed

text \<open>
  In \<open>one_holding\<close> process 1 holds \<open>R\<close> and releases it, which makes \<open>R\<close> available
  again; process 2 asks for the free \<open>S\<close> and gets it.
\<close>

theorem mutual_exclusion_kept_witness:
  "mutual_exclusion one_holding
   \<and> holds one_holding 1 ''R'' \<and> \<not> is_resource_available ''R'' one_holding
   \<and> (\<exists>s'. execute_instr 3 1 (Some (rel ''R'')) one_holding = Returns s'
          \<and> is_resource_available ''R'' s' \<and> mutual_exclusion s')
   \<and> (\<exists>s'. request_resource 2 (req ''S'') one_holding = Returns s'
          \<and> \<not> holds one_holding 2 ''S'' \<and> holds s' 2 ''S''
          \<and> is_resource_available ''S'' one_holding \<and> \<not> is_resource_available ''S'' s')
   \<and> (\<exists>s'. schedule_processes FCFS 1 5 one_holding = Returns s' \<and> mutual_exclusion s')"
proof -
  note inv = one_holding_inv
  note inst1 = mutual_exclusion_kept [OF inv, where c = 1 and n = 3 and instr = "Some (rel ''R'')"
      and sched_type = FCFS and quantum = 1]
  note inst2 = mutual_exclusion_kept [OF inv, where c = 2 and i = "req ''S''" and n = 5
      and sched_type = FCFS and quantum = 1]
  have h: "holds one_holding 1 ''R''" "\<not> is_resource_available ''R'' one_holding"
    by (simp_all add: holds_def is_resource_available_def example_defs)
  obtain s1 where e: "execute_instr 3 1 (Some (rel ''R'')) one_holding = Returns s1"
    and a1: "is_resource_available ''R'' s1"
    by (simp add: example_defs execute_instr_def release_resource_def
        move_waiting_pcbs_to_rq_def move_waiting_to_ready_based_on_resources_def
        mark_resource_as_available_def deref_def is_resource_available_def eval_nat_numeral)
  obtain s2 where r: "request_resource 2 (req ''S'') one_holding = Returns s2"
    and h2: "\<not> holds one_holding 2 ''S''" "holds s2 2 ''S''"
    by (simp add: example_defs request_resource_def holds_def)
  obtain s3 where f: "schedule_processes FCFS 1 5 one_holding = Returns s3"
    by (simp add: example_defs schedule_processes_def FCFS_def RR_def PRIOR_def eval_nat_numeral
        dequeue_pcb_def Let_def execute_instr_def request_resource_def move_proc_to_wq_def
        move_proc_to_tq_def enqueue_pcb_def check_for_new_arrivals_def get_new_pcb_def
        set_queue_def get_queue_def set_state_def set_next_def set_next_instruction_def
        set_resources_def emit_def)
  have rn: "resource_name (req ''S'') = ''S''" by (simp add: req_def)
  from inst1 e have m1: "mutual_exclusion s1" by blast
  from inst2 f have m3: "mutual_exclusion s3" by blast
  from inst2 r h2 have av: "is_resource_available ''S'' one_holding"
    "\<not> is_resource_available ''S'' s2"
    unfolding rn by blast+
  from inv h e a1 m1 r h2 av f m3 show ?thesis by blast
qed

subsection \<open>C1: deadlock detection\<close>

text \<open>
  Claim C1 says that under either policy a state with an empty ready queue and a non-empty
  waiting queue makes the manager report deadlock once and halt. \<^verbatim>\<open>schedule_fcfs\<close> never
  calls \<^verbatim>\<open>check_deadlock\<close>: on the workload \<open>one_ready\<close> it returns with the ready
  queue empty, process 1 in the waiting queue and no ``deadlock detected'' line in the
  output. \<^verbatim>\<open>schedule_pri_w_pre\<close> reports the deadlock of the same workload, once.
\<close>

theorem fcfs_reports_no_deadlock:
  "(case schedule_processes FCFS 1 5 one_ready of
      Returns s \<Rightarrow> first (readyq s) = None \<and> first (waitingq s) = Some 1
        \<and> Log_deadlock_detected \<notin> set (logfile s)
    | _ \<Rightarrow> False)
   \<and> (case schedule_processes PRIOR 1 5 one_ready of
      Returns s \<Rightarrow> first (readyq s) = None \<and> first (waitingq s) = Some 1
        \<and> logfile s = [Log_request_waiting ''P1'' ''X'', Log_deadlock_detected]
    | _ \<Rightarrow> False)"
  by (simp add: example_defs model_defs eval_nat_numeral)

subsection \<open>C2: the queues as a partition\<close>

text \<open>
  Claim C2 says that no process is ever in two queues. On the workload
  \<open>blocked_then_arrival\<close> the first pass of \<^verbatim>\<open>schedule_pri_w_pre\<close> runs the request of
  process 1, which puts it into the waiting queue; process 2 arrives with a higher priority,
  and the preemption test moves process 1, as if it were still running, to the ready queue.
  After the pass process 2 is the current process, and process 1, in state \<^verbatim>\<open>READY\<close>, is
  the one block of the ready queue and the one block of the waiting queue.
\<close>

theorem blocked_process_in_two_queues:
  "case schedule_pri_w_pre_pass 5 None blocked_then_arrival of
     Returns (stop, current_process, s) \<Rightarrow>
       \<not> stop \<and> current_process = Some 2 \<and> state (pcbs s 1) = READY
       \<and> queue_is s (readyq s) [1] \<and> queue_is s (waitingq s) [1]
   | _ \<Rightarrow> False"
  by (simp add: example_defs model_defs queue_is_def eval_nat_numeral)

subsection \<open>C8: first come, first served\<close>

text \<open>
  Claim C8 says that under FCFS a running process executes its instructions until it blocks
  or has no instruction left. \<^verbatim>\<open>schedule_fcfs\<close> enqueues a blocked process a second time
  (\<^verbatim>\<open>request_resource\<close> has already done it), which makes the block point to itself. On the
  workload \<open>block_then_release\<close> process 1 blocks, and the release of process 2 then walks
  the waiting queue without end: for every amount of fuel the run does not return.
\<close>

theorem fcfs_release_after_block_hangs:
  "schedule_processes FCFS quantum n block_then_release = Out_of_fuel"
proof -
  have "schedule_fcfs n block_then_release = Out_of_fuel"
  proof (cases n)
    case 0 then show ?thesis by simp
  next
    case (Suc m)
    show ?thesis
    proof (cases m)
      case 0 with Suc show ?thesis
        by (simp add: example_defs model_defs)
    next
      case (Suc k)
      with \<open>n = Suc m\<close> block_then_release_first_turn[of k] blocked_twice_hangs[of "Suc k"]
      show ?thesis by simp
    qed
  qed
  then show ?thesis by (simp add: schedule_processes_def FCFS_def RR_def PRIOR_def)
qed

theorem fcfs_release_after_block_hangs_witness:
  "schedule_processes FCFS 1 100 block_then_release = Out_of_fuel"
  using fcfs_release_after_block_hangs [of 1 100] .

subsection \<open>C4: waking up on a release\<close>

text \<open>
  Claim C4, as the code has it. \<^verbatim>\<open>is_waiting_for_resource\<close> holds of a process that is
  in state \<^verbatim>\<open>WAITING\<close> and has a request for the resource anywhere among its pending
  instructions, from the cursor on. When a process releases a resource \<open>r\<close> that it holds,
  and the waiting and the ready queue are well-formed and have no block in common, exactly
  the processes of the waiting queue of which \<^verbatim>\<open>is_waiting_for_resource\<close> holds for \<open>r\<close>
  are moved to the ready queue, all of them; they get the state \<^verbatim>\<open>READY\<close>, enter the ready
  queue at its tail in the order they had in the waiting queue, and the others keep their
  order in the waiting queue.
\<close>

theorem release_wakes_up:
  assumes held: "\<exists>h\<in>set (resources (pcbs s p)). name h = resource_name i"
    and wq: "queue_is s (waitingq s) ws" and rq: "queue_is s (readyq s) rs"
    and disj: "set ws \<inter> set rs = {}" and n: "length ws < n"
  shows "(is_waiting_for_resource (Some w) (resource_name i) s \<longleftrightarrow>
            state (pcbs s w) = WAITING
            \<and> (\<exists>j\<in>set (next_instruction (pcbs s w)).
                   instr_type j = REQ_OP \<and> resource_name j = resource_name i))
    \<and> (\<exists>s'. release_resource n p i s = Returns s'
         \<and> queue_is s' (waitingq s')
              (filter (\<lambda>w. \<not> is_waiting_for_resource (Some w) (resource_name i) s) ws)
         \<and> queue_is s' (readyq s')
              (rs @ filter (\<lambda>w. is_waiting_for_resource (Some w) (resource_name i) s) ws)
         \<and> (\<forall>a. state (pcbs s' a) =
                (if a \<in> set ws \<and> is_waiting_for_resource (Some a) (resource_name i) s
                 then READY else state (pcbs s a)))
         \<and> logfile s' = logfile s
              @ Log_release_released (proc_name (pcbs s p)) (resource_name i)
              # map (\<lambda>w. Log_request_ready (proc_name (pcbs s w)))
                  (filter (\<lambda>w. is_waiting_for_resource (Some w) (resource_name i) s) ws))"
proof
  show "is_waiting_for_resource (Some w) (resource_name i) s \<longleftrightarrow>
            state (pcbs s w) = WAITING
            \<and> (\<exists>j\<in>set (next_instruction (pcbs s w)).
                   instr_type j = REQ_OP \<and> resource_name j = resource_name i)"
    by (rule is_waiting_for_resource_iff)
next
  let ?r = "resource_name i"
  from held have "release_resource_loop ?r (resources (pcbs s p)) \<noteq> None"
    by (auto simp: release_resource_loop_None)
  then obtain H where H: "release_resource_loop ?r (resources (pcbs s p)) = Some H" by auto
  define s0 where "s0 = emit (Log_release_released (proc_name (pcbs s p)) ?r)
               (mark_resource_as_available ?r (set_resources p H s))"
  have same: "\<And>a. pcb_next (pcbs s0 a) = pcb_next (pcbs s a)" "\<And>a. state (pcbs s0 a) = state (pcbs s a)"
    "\<And>a. next_instruction (pcbs s0 a) = next_instruction (pcbs s a)"
    "\<And>a. proc_name (pcbs s0 a) = proc_name (pcbs s a)"
    "waitingq s0 = waitingq s" "readyq s0 = readyq s"
    "logfile s0 = logfile s @ [Log_release_released (proc_name (pcbs s p)) ?r]"
    by (simp_all add: s0_def mark_resource_as_available_def)
  have W: "\<And>w. is_waiting_for_resource (Some w) ?r s0 = is_waiting_for_resource (Some w) ?r s"
    by (rule is_waiting_for_resource_cong) (simp_all add: same)
  have rel: "release_resource n p i s = move_waiting_pcbs_to_rq_loop n ?r None (first (waitingq s0)) s0"
    using H by (simp add: release_resource_def move_waiting_pcbs_to_rq_def s0_def)
  have wq0: "queue_is s0 (waitingq s0) ws" using wq same by (simp add: queue_is_cong[of ws s0 s])
  have rq0: "queue_is s0 (readyq s0) rs" using rq same by (simp add: queue_is_cong[of rs s0 s])
  have d: "distinct ([] @ ws @ rs)"
    using disj queue_is_distinct[OF wq] queue_is_distinct[OF rq] by auto
  from wq0 have p1: "path s0 (first (waitingq s0)) [] (first (waitingq s0))"
    and p2: "path s0 (first (waitingq s0)) ws None"
    and l: "last_q (waitingq s0) = (if [] @ ws = [] then None else Some (last ([] @ ws)))"
    by (simp_all add: queue_is_def)
  have pv: "None = (if ([]::addr list) = [] then None else Some (last []))" by simp
  from move_waiting_pcbs_to_rq_loop_correct[OF p1 p2 l pv rq0 d n, of ?r]
  obtain s' where "move_waiting_pcbs_to_rq_loop n ?r None (first (waitingq s0)) s0 = Returns s'"
    "queue_is s' (waitingq s') ([] @ filter (\<lambda>w. \<not> is_waiting_for_resource (Some w) ?r s0) ws)"
    "queue_is s' (readyq s') (rs @ filter (\<lambda>w. is_waiting_for_resource (Some w) ?r s0) ws)"
    "\<forall>a. state (pcbs s' a) =
            (if a \<in> set ws \<and> is_waiting_for_resource (Some a) ?r s0 then READY else state (pcbs s0 a))"
    "logfile s' = logfile s0 @ map (\<lambda>w. Log_request_ready (proc_name (pcbs s0 w)))
                                    (filter (\<lambda>w. is_waiting_for_resource (Some w) ?r s0) ws)"
    by blast
  then show "\<exists>s'. release_resource n p i s = Returns s'
         \<and> queue_is s' (waitingq s')
              (filter (\<lambda>w. \<not> is_waiting_for_resource (Some w) (resource_name i) s) ws)
         \<and> queue_is s' (readyq s')
              (rs @ filter (\<lambda>w. is_waiting_for_resource (Some w) (resource_name i) s) ws)
         \<and> (\<forall>a. state (pcbs s' a) =
                (if a \<in> set ws \<and> is_waiting_for_resource (Some a) (resource_name i) s
                 then READY else state (pcbs s a)))
         \<and> logfile s' = logfile s
              @ Log_release_released (proc_name (pcbs s p)) (resource_name i)
              # map (\<lambda>w. Log_request_ready (proc_name (pcbs s w)))
                  (filter (\<lambda>w. is_waiting_for_resource (Some w) (resource_name i) s) ws)"
    by (intro exI[of _ s']) (simp add: rel W same)
qed

text \<open>
  In \<open>later_request\<close> process 1 releases \<open>A\<close>: processes 2 and 4 are moved behind
  process 5 in the ready queue, process 3 stays in the waiting queue.
\<close>

theorem release_wakes_up_witness:
  "queue_is later_request (waitingq later_request) [2, 3, 4]
   \<and> queue_is later_request (readyq later_request) [5]
   \<and> (\<exists>s'. release_resource 5 1 (rel ''A'') later_request = Returns s'
         \<and> queue_is s' (waitingq s') [3]
         \<and> queue_is s' (readyq s') [5, 2, 4]
         \<and> logfile s' = [Log_release_released ''P1'' ''A'', Log_request_ready ''P2'',
                          Log_request_ready ''P4''])"
proof -
  have held: "\<exists>h\<in>set (resources (pcbs later_request 1)). name h = resource_name (rel ''A'')"
    by (simp add: example_defs)
  have wq: "queue_is later_request (waitingq later_request) [2, 3, 4]"
    and rq: "queue_is later_request (readyq later_request) [5]"
    by (simp_all add: example_defs queue_is_def)
  have disj: "set [2, 3, 4] \<inter> set [5::nat] = {}" and n: "length [2::nat, 3, 4] < 5" by simp_all
  have f: "filter (\<lambda>w. is_waiting_for_resource (Some w) ''A'' later_request) [2, 3, 4]
      = [2, 4]"
    "filter (\<lambda>w. \<not> is_waiting_for_resource (Some w) ''A'' later_request) [2, 3, 4]
      = [3]"
    by (simp_all add: example_defs is_waiting_for_resource_def)
  have g: "logfile later_request = []" "proc_name (pcbs later_request 1) = ''P1''"
    "proc_name (pcbs later_request 2) = ''P2''" "proc_name (pcbs later_request 4) = ''P4''"
    "resource_name (rel ''A'') = ''A''"
    by (simp_all add: example_defs)
  from release_wakes_up [OF held wq rq disj n, unfolded g, unfolded f] obtain s' where
    "release_resource 5 1 (rel ''A'') later_request = Returns s'"
    "queue_is s' (waitingq s') [3]" "queue_is s' (readyq s') ([5] @ [2, 4])"
    "logfile s' = [] @ Log_release_released ''P1'' ''A''
       # map (\<lambda>w. Log_request_ready (proc_name (pcbs later_request w))) [2, 4]"
    by blast
  with wq rq show ?thesis by (auto simp: g)
qed

text \<open>
  The claim says that only the processes whose next pending instruction is a request for the
  released resource are moved. In \<open>later_request\<close> the next pending instruction of
  process 2 is a request for \<open>B\<close>; the release of \<open>A\<close> moves it to the ready queue all the
  same, because a request for \<open>A\<close> comes later in its instructions. The whole release
  instruction, with the sweep of the waiting queue that \<^verbatim>\<open>execute_instr\<close> makes after it,
  ends in the same queues.
\<close>

theorem release_wakes_later_request_counterexample:
  "next_instruction (pcbs later_request 2) = [req ''B'', req ''A'']
   \<and> queue_is later_request (waitingq later_request) [2, 3, 4]
   \<and> (case release_resource 5 1 (rel ''A'') later_request of
        Returns s' \<Rightarrow> queue_is s' (waitingq s') [3] \<and> queue_is s' (readyq s') [5, 2, 4]
          \<and> state (pcbs s' 2) = READY
      | _ \<Rightarrow> False)
   \<and> (case execute_instr 5 1 (Some (rel ''A'')) later_request of
        Returns s' \<Rightarrow> queue_is s' (waitingq s') [3] \<and> queue_is s' (readyq s') [5, 2, 4]
          \<and> state (pcbs s' 2) = READY
      | _ \<Rightarrow> False)"
  by (simp add: example_defs model_defs queue_is_def eval_nat_numeral)

subsection \<open>C5: requests\<close>

text \<open>
  Claim C5 says that a process which asks for a resource that is taken or unknown is moved
  to the waiting queue with the state \<^verbatim>\<open>WAITING\<close>, and that a ``waiting'' line is written.
  On the workload \<open>wake_then_block\<close> under FCFS process 1 blocks on \<open>Z\<close> and
  \<^verbatim>\<open>schedule_fcfs\<close> enqueues it a second time, so that it points to itself. Process 2
  acquires and releases \<open>A\<close>; the release wakes process 1 up, which leaves
  \<^verbatim>\<open>waitingq.first\<close> on process 1 and sets \<^verbatim>\<open>waitingq.last\<close> to \<^verbatim>\<open>NULL\<close>. After these two
  turns the state is \<open>woken_once\<close>. Process 1 is dispatched again and repeats its request
  for \<open>Z\<close>: \<^verbatim>\<open>enqueue_pcb\<close> stores through \<^verbatim>\<open>waitingq.last\<close>, and the program stops with a
  dereferenced \<^verbatim>\<open>NULL\<close> instead of process 1 being moved to the waiting queue.
\<close>

theorem fcfs_request_after_wake_faults:
  "schedule_fcfs (n + 7) wake_then_block = schedule_fcfs (n + 5) woken_once
   \<and> first (waitingq (fcfs_dispatch woken_once)) = Some 1
   \<and> last_q (waitingq (fcfs_dispatch woken_once)) = None
   \<and> state (pcbs (fcfs_dispatch woken_once) 1) = RUNNING
   \<and> next_instruction (pcbs (fcfs_dispatch woken_once) 1) = [req ''Z'', req ''A'']
   \<and> request_resource 1 (req ''Z'') (fcfs_dispatch woken_once) = Fault Null_dereference
   \<and> schedule_processes FCFS quantum (n + 7) wake_then_block = Fault Null_dereference"
  using wake_then_block_two_turns[of n] wake_then_block_faults[of n]
  by (simp add: eval_nat_numeral fcfs_dispatch_def example_defs model_defs)

subsection \<open>C6: releasing what is not held\<close>

text \<open>
  Claim C6 says that a release of a resource that the process does not hold writes the
  ``release error'' line and changes nothing, after which the process goes on with its next
  instruction. On the workload \<open>block_then_release\<close> under FCFS the turn of process 1
  ends in the state \<open>blocked_twice\<close>, where process 1 is in the waiting queue and points
  to itself. Process 2 is dispatched and releases \<open>Y\<close>, which it does not hold.
  \<^verbatim>\<open>release_resource\<close> writes the error line and returns, but the walk over the waiting
  queue that \<^verbatim>\<open>execute_instr\<close> makes after every release never leaves process 1: for every
  amount of fuel the instruction does not return, and process 2 never gets to its next
  instruction.
\<close>

theorem fcfs_release_error_hangs:
  "schedule_fcfs (n + 2) block_then_release = schedule_fcfs (n + 1) blocked_twice
   \<and> state (pcbs (fcfs_dispatch blocked_twice) 2) = RUNNING
   \<and> next_instruction (pcbs (fcfs_dispatch blocked_twice) 2) = [rel ''Y'']
   \<and> resources (pcbs (fcfs_dispatch blocked_twice) 2) = []
   \<and> release_resource m 2 (rel ''Y'') (fcfs_dispatch blocked_twice)
       = Returns (emit (Log_release_error ''P2'' ''Y'') (fcfs_dispatch blocked_twice))
   \<and> execute_instr m 2 (Some (rel ''Y'')) (fcfs_dispatch blocked_twice) = Out_of_fuel"
proof -
  have a: "schedule_fcfs (n + 2) block_then_release = schedule_fcfs (n + 1) blocked_twice"
    using block_then_release_first_turn[of n] by simp
  have b: "state (pcbs (fcfs_dispatch blocked_twice) 2) = RUNNING"
    "next_instruction (pcbs (fcfs_dispatch blocked_twice) 2) = [rel ''Y'']"
    "resources (pcbs (fcfs_dispatch blocked_twice) 2) = []"
    by (simp_all add: fcfs_dispatch_def example_defs dequeue_pcb_def Let_def get_queue_def)
  have c: "release_resource m 2 (rel ''Y'') (fcfs_dispatch blocked_twice)
       = Returns (emit (Log_release_error ''P2'' ''Y'') (fcfs_dispatch blocked_twice))"
    using release_resource_error[of "fcfs_dispatch blocked_twice" 2 "rel ''Y''" m] b
    by (simp add: fcfs_dispatch_def example_defs dequeue_pcb_def Let_def get_queue_def)
  have d: "execute_instr m 2 (Some (rel ''Y'')) (fcfs_dispatch blocked_twice) = Out_of_fuel"
    by (rule execute_instr_release_hangs[where w = 1])
      (simp_all add: fcfs_dispatch_def example_defs dequeue_pcb_def Let_def get_queue_def
        set_queue_def canMoveToReady_def is_resource_available_def)
  from a b c d show ?thesis by simp
qed

subsection \<open>C7: priority scheduling\<close>

text \<open>
  Claim C7 says that under the priority policy, at every scheduling decision, the priority
  of the running process is at least that of every ready process, and that the selection
  takes the first ready process of maximal priority. On the workload
  \<open>preempted_while_blocked\<close> process 2 (priority 5) blocks on \<open>R\<close>, which process 1
  (priority 1) holds, in the pass in which process 3 arrives; the preemption test moves the
  blocked process 2 to the ready queue although it is in the waiting queue. When it runs
  again it blocks again, is enqueued in the waiting queue a second time and points to itself.
  After five passes the state is \<open>holder_ready\<close>. In the sixth pass process 1 is selected
  and releases \<open>R\<close>: process 2 is moved to the ready queue by the wake-up and once more by
  the walk over the waiting queue, so that it points to itself in the ready queue. Process 1
  is still running, process 2 with the higher priority is ready, and the search for the
  process of highest priority, with which every decision begins, never returns: for every
  amount of fuel the run of the scheduler does not return.
\<close>

theorem priority_selection_hangs:
  "schedule_pri_w_pre_loop (n + 10) None preempted_while_blocked
     = schedule_pri_w_pre_loop (n + 5) None holder_ready
   \<and> (case select_process 5 None holder_ready of
        Returns (current_process, s) \<Rightarrow>
          current_process = Some 1 \<and> next_instruction (pcbs s 1) = [rel ''R'']
          \<and> (case execute_instr 5 1 (Some (rel ''R'')) s of
                Returns s' \<Rightarrow>
                  state (pcbs s' 1) = RUNNING \<and> priority (pcbs s' 1) = 1
                  \<and> first (readyq s') = Some 2 \<and> pcb_next (pcbs s' 2) = Some 2
                  \<and> state (pcbs s' 2) = READY \<and> priority (pcbs s' 2) = 5
                  \<and> find_highest_priority_proc m s' = Out_of_fuel
              | _ \<Rightarrow> False)
      | _ \<Rightarrow> False)
   \<and> schedule_processes PRIOR quantum k preempted_while_blocked = Out_of_fuel"
proof -
  have a: "schedule_pri_w_pre_loop (n + 10) None preempted_while_blocked
     = schedule_pri_w_pre_loop (n + 5) None holder_ready"
    using preempted_while_blocked_five_passes[of n] by (simp add: eval_nat_numeral)
  have b: "case select_process 5 None holder_ready of
        Returns (current_process, s) \<Rightarrow>
          current_process = Some 1 \<and> next_instruction (pcbs s 1) = [rel ''R'']
          \<and> (case execute_instr 5 1 (Some (rel ''R'')) s of
                Returns s' \<Rightarrow>
                  state (pcbs s' 1) = RUNNING \<and> priority (pcbs s' 1) = 1
                  \<and> first (readyq s') = Some 2 \<and> pcb_next (pcbs s' 2) = Some 2
                  \<and> state (pcbs s' 2) = READY \<and> priority (pcbs s' 2) = 5
                  \<and> find_highest_priority_proc m s' = Out_of_fuel
              | _ \<Rightarrow> False)
      | _ \<Rightarrow> False"
    by (simp add: example_defs model_defs eval_nat_numeral find_highest_priority_proc_loop_self)
  have c: "schedule_pri_w_pre_loop k None preempted_while_blocked = Out_of_fuel"
  proof (cases "k < 10")
    case True then show ?thesis by (rule preempted_while_blocked_small)
  next
    case False
    then obtain j where "k = Suc (Suc (Suc (Suc (Suc (Suc (Suc (Suc (Suc (Suc j)))))))))"
      by atomize_elim presburger
    then show ?thesis using preempted_while_blocked_big[of j] by simp
  qed
  from a b c show ?thesis by (simp add: schedule_processes_def PRIOR_def schedule_pri_w_pre_def)
qed

end
